theory Spec2Isabelle
  imports Main "HOL-Library.Word"
begin

unbundle bit_operations_syntax

section \<open>Storage, and the C library calls of \<open>create_http2_stream_data\<close>\<close>

text \<open>
  A byte of storage is either a character or indeterminate: \<open>malloc\<close> returns storage whose
  bytes are all indeterminate, and the fields of a freshly allocated struct are indeterminate
  until they are assigned. A \<open>char *\<close> field is \<open>None\<close> while it has never been assigned and
  \<open>Some b\<close> once it points to the block \<open>b\<close>. Allocation is taken to succeed (the source
  never tests the result of \<open>malloc\<close>).
\<close>

type_synonym cell = "char option"
type_synonym buffer = "cell list"

datatype fault =
    Wild_pointer          \<comment> \<open>access through a pointer that was never assigned\<close>
  | Out_of_bounds         \<comment> \<open>access beyond the end of a block\<close>
  | Reads_indeterminate   \<comment> \<open>a computation uses a field that was never assigned\<close>
  | Null_pointer          \<comment> \<open>a library call or a dereference on a NULL pointer\<close>

definition bindE :: "fault + 'a \<Rightarrow> ('a \<Rightarrow> fault + 'b) \<Rightarrow> fault + 'b" where
  "bindE m f = (case m of Inl e \<Rightarrow> Inl e | Inr x \<Rightarrow> f x)"

definition malloc :: "nat \<Rightarrow> buffer" where
  "malloc n = replicate n None"

text \<open>
  \<open>memcpy dst k src j n\<close> is \<open>memcpy(dst + k, src + j, n)\<close>. A copy of no bytes touches
  nothing; otherwise both ranges must lie inside their blocks.
\<close>

definition memcpy :: "buffer option \<Rightarrow> nat \<Rightarrow> buffer \<Rightarrow> nat \<Rightarrow> nat \<Rightarrow> fault + buffer option" where
  "memcpy dst k src j n =
     (if n = 0 then Inr dst
      else if length src < j + n then Inl Out_of_bounds
      else case dst of
             None \<Rightarrow> Inl Wild_pointer
           | Some b \<Rightarrow>
               if length b < k + n then Inl Out_of_bounds
               else Inr (Some (take k b @ take n (drop j src) @ drop (k + n) b)))"

text \<open>The storage of a NUL-terminated C string.\<close>

definition c_string :: "string \<Rightarrow> buffer" where
  "c_string s = map Some (s @ [CHR 0x00])"

definition digit :: "nat \<Rightarrow> char" where
  "digit n = ''0123456789'' ! n"

text \<open>The conversion \<open>%u\<close>: decimal digits, most significant first, no padding.\<close>

fun dec :: "nat \<Rightarrow> string" where
  "dec n = (if n < 10 then [digit n] else dec (n div 10) @ [digit (n mod 10)])"

declare dec.simps [simp del]

text \<open>
  \<open>snprintf b k sz s\<close> is \<open>snprintf(b + k, sz, ...)\<close> for a format that expands to
  \<open>s\<close>: at most \<open>sz - 1\<close> characters and a terminating NUL are stored, and the length of
  the whole expansion is returned.
\<close>

definition snprintf :: "buffer \<Rightarrow> nat \<Rightarrow> nat \<Rightarrow> string \<Rightarrow> fault + buffer \<times> nat" where
  "snprintf b k sz s =
     (if sz = 0 then Inr (b, length s)
      else let out = take (sz - 1) s @ [CHR 0x00] in
           if length b < k + length out then Inl Out_of_bounds
           else Inr (take k b @ map Some out @ drop (k + length out) b, length s))"

section \<open>The parsed URI\<close>

text \<open>
  \<open>struct http_parser_url\<close> is declared in \<open>http-parser/http_parser.h\<close>: a bit set
  \<open>field_set\<close>, the converted \<open>port\<close>, and for each field of
  \<open>enum http_parser_url_fields\<close> an offset and a length into the URI, all of them
  \<open>uint16_t\<close>. The parser is not among the sources: the struct is an input.
\<close>

datatype http_parser_url_fields =
  UF_SCHEMA | UF_HOST | UF_PORT | UF_PATH | UF_QUERY | UF_FRAGMENT | UF_USERINFO

fun uf_index :: "http_parser_url_fields \<Rightarrow> nat" where
  "uf_index UF_SCHEMA = 0"
| "uf_index UF_HOST = 1"
| "uf_index UF_PORT = 2"
| "uf_index UF_PATH = 3"
| "uf_index UF_QUERY = 4"
| "uf_index UF_FRAGMENT = 5"
| "uf_index UF_USERINFO = 6"

record url_field =
  off :: "16 word"
  len :: "16 word"

record http_parser_url =
  field_set :: "16 word"
  port :: "16 word"
  field_data :: "http_parser_url_fields \<Rightarrow> url_field"

text \<open>The test \<open>u->field_set & (1 << UF_X)\<close>.\<close>

definition field_is_set :: "http_parser_url \<Rightarrow> http_parser_url_fields \<Rightarrow> bool" where
  "field_is_set u f \<longleftrightarrow> field_set u AND push_bit (uf_index f) 1 \<noteq> 0"

definition f_off :: "http_parser_url \<Rightarrow> http_parser_url_fields \<Rightarrow> nat" where
  "f_off u f = unat (off (field_data u f))"

definition f_len :: "http_parser_url \<Rightarrow> http_parser_url_fields \<Rightarrow> nat" where
  "f_len u f = unat (len (field_data u f))"

section \<open>\<open>http2_stream_data\<close> and its constructor\<close>

text \<open>
  The two lengths are \<open>size_t\<close>; the sums computed here stay below \<open>2 * 65535 + 8\<close>, so they
  are natural numbers. A length that was never assigned is \<open>None\<close>.
\<close>

record http2_stream_data =
  uri :: string
  u :: http_parser_url
  authority :: "buffer option"
  path :: "buffer option"
  authoritylen :: "nat option"
  pathlen :: "nat option"
  stream_id :: "32 word"

definition set_authority :: "string \<Rightarrow> http_parser_url \<Rightarrow> http2_stream_data \<Rightarrow> fault + http2_stream_data" where
  "set_authority str pu sd =
     (let hostlen = f_len pu UF_HOST;
          sd1 = sd\<lparr>authoritylen := Some hostlen\<rparr> in
      bindE (if field_is_set pu UF_PORT
             then (let extra = 7 in
                   bindE (snprintf (malloc (hostlen + extra)) hostlen extra
                            (CHR '':'' # dec (unat (port pu))))
                     (\<lambda>(b, n). Inr (sd1\<lparr>authority := Some b, authoritylen := Some (hostlen + n)\<rparr>)))
             else Inr sd1)
        (\<lambda>sd2. bindE (memcpy (authority sd2) 0 (c_string str) (f_off pu UF_HOST) hostlen)
                  (\<lambda>a. Inr (sd2\<lparr>authority := a\<rparr>))))"

definition set_path :: "string \<Rightarrow> http_parser_url \<Rightarrow> http2_stream_data \<Rightarrow> fault + http2_stream_data" where
  "set_path str pu sd =
     (let sd1 = (if field_is_set pu UF_PATH then sd\<lparr>pathlen := Some (f_len pu UF_PATH)\<rparr> else sd) in
      bindE (if field_is_set pu UF_QUERY
             then (case pathlen sd1 of
                     None \<Rightarrow> Inl Reads_indeterminate
                   | Some n \<Rightarrow> Inr (sd1\<lparr>pathlen := Some (n + (f_len pu UF_QUERY + 1))\<rparr>))
             else Inr sd1)
        (\<lambda>sd2. case pathlen sd2 of
                  None \<Rightarrow> Inl Reads_indeterminate
                | Some n \<Rightarrow>
                    bindE (memcpy (Some (malloc n)) 0 (c_string str) (f_off pu UF_PATH) (f_len pu UF_PATH))
                      (\<lambda>p. bindE (memcpy p (f_len pu UF_PATH + 1) (c_string str)
                                     (f_off pu UF_QUERY) (f_len pu UF_QUERY))
                             (\<lambda>p'. Inr (sd2\<lparr>path := p'\<rparr>)))))"

definition create_http2_stream_data :: "string \<Rightarrow> http_parser_url \<Rightarrow> fault + http2_stream_data" where
  "create_http2_stream_data str pu =
     bindE (set_authority str pu
              \<lparr>uri = str, u = pu, authority = None, path = None,
               authoritylen = None, pathlen = None, stream_id = - 1\<rparr>)
       (set_path str pu)"

text \<open>
  The bytes a name/value pair takes from a buffer and its length field: the first \<open>n\<close>
  bytes of the block. Reading through a pointer or a length that was never assigned, or
  beyond the block, is a fault.
\<close>

definition nv_value :: "buffer option \<Rightarrow> nat option \<Rightarrow> fault + buffer" where
  "nv_value p n =
     (case p of
        None \<Rightarrow> Inl Wild_pointer
      | Some b \<Rightarrow>
          (case n of
             None \<Rightarrow> Inl Reads_indeterminate
           | Some k \<Rightarrow> if length b < k then Inl Out_of_bounds else Inr (take k b)))"

text \<open>The bytes of the URI named by a field of the parse result.\<close>

definition uri_field :: "string \<Rightarrow> http_parser_url \<Rightarrow> http_parser_url_fields \<Rightarrow> string" where
  "uri_field str pu f = take (f_len pu f) (drop (f_off pu f) str)"

section \<open>Frames, callbacks and the calls the program makes\<close>

text \<open>
  The protocol engine (nghttp2), the transport (libevent) and the security layer (OpenSSL)
  are the environment of the program. The program is observed through the calls it makes to
  them and the bytes it writes to its two output streams, recorded in call order; what a
  call returns, and which callbacks the engine invokes while it runs, are inputs of the
  handlers.

  Of a frame the handlers read the type and stream identifier of the header, and the
  category and name/value pairs of a HEADERS frame. Of the two enumerations only the
  members the program compares with are distinguished.
\<close>

type_synonym bytes = string

datatype frame_type = NGHTTP2_HEADERS | Other_frame_type

datatype headers_category = NGHTTP2_HCAT_REQUEST | NGHTTP2_HCAT_RESPONSE | Other_category

text \<open>
  A name/value pair holds two pointers with their lengths. In the pairs the program builds
  the name is a string literal, and the value is read when the pair is used, which faults if
  its range is not valid. The pairs of a frame the engine hands over are valid ranges.
\<close>

type_synonym nghttp2_nv = "buffer \<times> (fault + buffer)"

record nghttp2_frame =
  hd_type :: frame_type
  hd_stream_id :: "32 word"
  headers_cat :: headers_category
  headers_nva :: "(buffer \<times> buffer) list"

datatype callback =
    Send_callback
  | Before_frame_send_callback
  | On_frame_recv_callback
  | On_data_chunk_recv_callback
  | On_stream_close_callback

datatype settings_id = NGHTTP2_SETTINGS_MAX_CONCURRENT_STREAMS

text \<open>
  Diagnostics of \<open>warnx\<close> and \<open>errx\<close>: literal text, the macro
  \<open>NGHTTP2_PROTO_VERSION_ID\<close> and the text \<open>nghttp2_strerror\<close> returns are kept
  symbolic, since \<open>nghttp2.h\<close> and the library are not among the sources.
\<close>

datatype text_piece = Lit string | PROTO_VERSION_ID | Strerror "32 word"

datatype action =
    Stdout bytes                                \<comment> \<open>\<open>fwrite(..., stdout)\<close>\<close>
  | Stderr buffer                               \<comment> \<open>\<open>fprintf(stderr, ...)\<close>, \<open>fwrite(..., stderr)\<close>\<close>
  | Warnx "text_piece list"
  | Errx "text_piece list"                      \<comment> \<open>\<open>errx(1, ...)\<close>\<close>
  | Bufferevent_openssl_get_ssl
  | SSL_shutdown
  | Bufferevent_free
  | Evdns_base_free
  | Nghttp2_session_del
  | Free_path
  | Free_authority
  | Free_stream_data
  | Bufferevent_socket_connect_hostname string nat
  | Setsockopt_TCP_NODELAY
  | Nghttp2_session_client_new "callback list"
  | Bufferevent_write_CLIENT_CONNECTION_HEADER  \<comment> \<open>the macro \<open>NGHTTP2_CLIENT_CONNECTION_HEADER\<close>\<close>
  | Bufferevent_write bytes
  | Nghttp2_submit_settings "(settings_id \<times> nat) list"
  | Nghttp2_submit_request "(buffer \<times> buffer) list" nat
  | Nghttp2_submit_goaway                       \<comment> \<open>with \<open>NGHTTP2_NO_ERROR\<close> and no opaque data\<close>
  | Nghttp2_session_mem_recv bytes
  | Evbuffer_drain nat
  | Nghttp2_session_send

datatype status = Running | Exited int | Crashed fault

text \<open>
  \<open>http2_session_data\<close>: a pointer is \<open>None\<close> when it is NULL. Of the bufferevent the
  program reads whether it carries an SSL object; the stream data is kept with its address,
  which is what the engine hands back as stream user data.
\<close>

record bufferevent =
  bev_ssl :: bool

record http2_session_data =
  session :: "callback list option"
  dnsbase :: "unit option"
  bev :: "bufferevent option"
  stream_data :: "(nat \<times> http2_stream_data) option"

record world = http2_session_data +
  trace :: "action list"
  status :: status

text \<open>Nothing happens any more once the process has exited or crashed.\<close>

definition upd :: "(world \<Rightarrow> world) \<Rightarrow> world \<Rightarrow> world" where
  "upd f w = (if status w = Running then f w else w)"

definition emit :: "action \<Rightarrow> world \<Rightarrow> world" where
  "emit a = upd (\<lambda>w. w\<lparr>trace := trace w @ [a]\<rparr>)"

definition crash :: "fault \<Rightarrow> world \<Rightarrow> world" where
  "crash f = upd (\<lambda>w. w\<lparr>status := Crashed f\<rparr>)"

definition errx :: "text_piece list \<Rightarrow> world \<Rightarrow> world" where
  "errx msg w = upd (\<lambda>w. w\<lparr>status := Exited 1\<rparr>) (emit (Errx msg) w)"

definition lit :: "string \<Rightarrow> buffer" where
  "lit s = map Some s"

definition nl :: string where
  "nl = [CHR 0x0A]"

text \<open>The conversion \<open>%d\<close>.\<close>

definition dec_int :: "int \<Rightarrow> string" where
  "dec_int i = (if i < 0 then CHR ''-'' # dec (nat (- i)) else dec (nat i))"

section \<open>Release of the stream and session data\<close>

definition delete_http2_stream_data :: "world \<Rightarrow> world" where
  "delete_http2_stream_data w = emit Free_stream_data (emit Free_authority (emit Free_path w))"

text \<open>
  The function starts by asking the bufferevent for its SSL object; on a NULL bufferevent
  that call faults.
\<close>

definition delete_http2_session_data :: "world \<Rightarrow> world" where
  "delete_http2_session_data w =
     (let w0 = emit Bufferevent_openssl_get_ssl w
      in case bev w0 of
        None \<Rightarrow> crash Null_pointer w0
      | Some b \<Rightarrow>
          (let w1 = (if bev_ssl b then emit SSL_shutdown w0 else w0);
               w2 = upd (\<lambda>w. w\<lparr>bev := None\<rparr>) (emit Bufferevent_free w1);
               w3 = (case dnsbase w2 of
                       None \<Rightarrow> crash Null_pointer w2
                     | Some _ \<Rightarrow> upd (\<lambda>w. w\<lparr>dnsbase := None\<rparr>) (emit Evdns_base_free w2));
               w4 = upd (\<lambda>w. w\<lparr>session := None\<rparr>) (emit Nghttp2_session_del w3)
           in case stream_data w4 of
                None \<Rightarrow> w4
              | Some _ \<Rightarrow> upd (\<lambda>w. w\<lparr>stream_data := None\<rparr>) (delete_http2_stream_data w4)))"

section \<open>The callbacks given to the protocol engine\<close>

fun print_header :: "nghttp2_nv \<Rightarrow> world \<Rightarrow> world" where
  "print_header (name, val) w =
     (let w1 = emit (Stderr (lit '': '')) (emit (Stderr name) w)
      in case val of
           Inl f \<Rightarrow> crash f w1
         | Inr v \<Rightarrow> emit (Stderr (lit nl)) (emit (Stderr v) w1))"

definition print_headers :: "nghttp2_nv list \<Rightarrow> world \<Rightarrow> world" where
  "print_headers nva w = emit (Stderr (lit nl)) (fold print_header nva w)"

definition send_callback :: "bytes \<Rightarrow> world \<Rightarrow> world" where
  "send_callback data w =
     (case bev w of
        None \<Rightarrow> crash Null_pointer w
      | Some _ \<Rightarrow> emit (Bufferevent_write data) w)"

text \<open>
  \<open>ud\<close> is what \<open>nghttp2_session_get_stream_user_data\<close> returns for the stream of the
  frame: the address given to \<open>nghttp2_submit_request\<close> for it, or NULL.
\<close>

definition before_frame_send_callback :: "nghttp2_frame \<Rightarrow> nat option \<Rightarrow> world \<Rightarrow> world" where
  "before_frame_send_callback frame ud w =
     (if hd_type frame = NGHTTP2_HEADERS \<and> headers_cat frame = NGHTTP2_HCAT_REQUEST
      then (if ud = map_option fst (stream_data w)
            then (case stream_data w of
                    None \<Rightarrow> crash Null_pointer w
                  | Some (a, sd) \<Rightarrow>
                      upd (\<lambda>w. w\<lparr>stream_data := Some (a, sd\<lparr>stream_id := hd_stream_id frame\<rparr>)\<rparr>) w)
            else w)
      else w)"

definition on_frame_recv_callback :: "nghttp2_frame \<Rightarrow> world \<Rightarrow> world" where
  "on_frame_recv_callback frame w =
     (case hd_type frame of
        NGHTTP2_HEADERS \<Rightarrow>
          (if headers_cat frame = NGHTTP2_HCAT_RESPONSE
           then (case stream_data w of
                   None \<Rightarrow> crash Null_pointer w
                 | Some (a, sd) \<Rightarrow>
                     if stream_id sd = hd_stream_id frame
                     then print_headers (map (\<lambda>(name, v). (name, Inr v)) (headers_nva frame))
                            (emit (Stderr (lit (''Response headers:'' @ nl))) w)
                     else w)
           else w)
      | Other_frame_type \<Rightarrow> w)"

definition on_data_chunk_recv_callback :: "32 word \<Rightarrow> bytes \<Rightarrow> world \<Rightarrow> world" where
  "on_data_chunk_recv_callback sid data w =
     (case stream_data w of
        None \<Rightarrow> crash Null_pointer w
      | Some (a, sd) \<Rightarrow> if stream_id sd = sid then emit (Stdout data) w else w)"

definition on_stream_close_callback :: "32 word \<Rightarrow> 32 word \<Rightarrow> world \<Rightarrow> world" where
  "on_stream_close_callback sid error_code w =
     (case stream_data w of
        None \<Rightarrow> crash Null_pointer w
      | Some (a, sd) \<Rightarrow>
          if stream_id sd = sid
          then emit Nghttp2_submit_goaway
                 (emit (Stderr (lit (''Stream '' @ dec_int (sint sid) @ '' closed with error_code=''
                                     @ dec_int (sint error_code) @ nl))) w)
          else w)"

text \<open>\<open>r\<close> is what \<open>nghttp2_select_next_protocol\<close> returns.\<close>

definition select_next_proto_cb :: "32 word \<Rightarrow> world \<Rightarrow> world" where
  "select_next_proto_cb r w =
     (if sint r \<le> 0 then errx [Lit ''Server did not advertise '', PROTO_VERSION_ID] w else w)"

text \<open>
  A callback the engine invokes while one of its entry points runs, with the arguments the
  engine passes.
\<close>

datatype cb_event =
    Cb_send bytes
  | Cb_before_frame_send nghttp2_frame "nat option"
  | Cb_on_frame_recv nghttp2_frame
  | Cb_on_data_chunk_recv "32 word" bytes
  | Cb_on_stream_close "32 word" "32 word"

fun invoke :: "cb_event \<Rightarrow> world \<Rightarrow> world" where
  "invoke (Cb_send data) w = send_callback data w"
| "invoke (Cb_before_frame_send frame ud) w = before_frame_send_callback frame ud w"
| "invoke (Cb_on_frame_recv frame) w = on_frame_recv_callback frame w"
| "invoke (Cb_on_data_chunk_recv sid data) w = on_data_chunk_recv_callback sid data w"
| "invoke (Cb_on_stream_close sid error_code) w = on_stream_close_callback sid error_code w"

section \<open>Session set-up and the request\<close>

definition initialize_nghttp2_session :: "world \<Rightarrow> world" where
  "initialize_nghttp2_session w =
     (let callbacks = [Send_callback, Before_frame_send_callback, On_frame_recv_callback,
                       On_data_chunk_recv_callback, On_stream_close_callback]
      in upd (\<lambda>w. w\<lparr>session := Some callbacks\<rparr>) (emit (Nghttp2_session_client_new callbacks) w))"

definition send_client_connection_header :: "world \<Rightarrow> world" where
  "send_client_connection_header w =
     (let iv = [(NGHTTP2_SETTINGS_MAX_CONCURRENT_STREAMS, 100)];
          w1 = (case bev w of
                  None \<Rightarrow> crash Null_pointer w
                | Some _ \<Rightarrow> emit Bufferevent_write_CLIENT_CONNECTION_HEADER w)
      in case session w1 of
           None \<Rightarrow> crash Null_pointer w1
         | Some _ \<Rightarrow> emit (Nghttp2_submit_settings iv) w1)"

text \<open>The range \<open>&uri[off]\<close>, \<open>len\<close> of a field, read from the storage of the URI.\<close>

definition uri_range :: "string \<Rightarrow> http_parser_url \<Rightarrow> http_parser_url_fields \<Rightarrow> fault + buffer" where
  "uri_range str pu f =
     (if length (c_string str) < f_off pu f + f_len pu f then Inl Out_of_bounds
      else Inr (take (f_len pu f) (drop (f_off pu f) (c_string str))))"

definition request_headers :: "http2_stream_data \<Rightarrow> nghttp2_nv list" where
  "request_headers sd =
     [(lit '':method'', Inr (lit ''GET'')),
      (lit '':scheme'', uri_range (uri sd) (u sd) UF_SCHEMA),
      (lit '':authority'', nv_value (authority sd) (authoritylen sd)),
      (lit '':path'', nv_value (path sd) (pathlen sd))]"

text \<open>The pairs as the engine reads them; only reached when every value could be printed.\<close>

definition nva_bytes :: "nghttp2_nv list \<Rightarrow> (buffer \<times> buffer) list" where
  "nva_bytes nva = map (\<lambda>(name, val). (name, case val of Inl _ \<Rightarrow> [] | Inr v \<Rightarrow> v)) nva"

definition submit_request :: "world \<Rightarrow> world" where
  "submit_request w =
     (case stream_data w of
        None \<Rightarrow> crash Null_pointer w
      | Some (a, sd) \<Rightarrow>
          (let hdrs = request_headers sd;
               w1 = print_headers hdrs (emit (Stderr (lit (''Request headers:'' @ nl))) w)
           in case session w1 of
                None \<Rightarrow> crash Null_pointer w1
              | Some _ \<Rightarrow> emit (Nghttp2_submit_request (nva_bytes hdrs) a) w1))"

text \<open>
  \<open>cbs\<close> are the callbacks the engine invokes during this call of
  \<open>nghttp2_session_send\<close>.
\<close>

definition session_send :: "cb_event list \<Rightarrow> world \<Rightarrow> world" where
  "session_send cbs w =
     (let w1 = emit Nghttp2_session_send w
      in case session w1 of
           None \<Rightarrow> crash Null_pointer w1
         | Some _ \<Rightarrow> fold invoke cbs w1)"

section \<open>The callbacks given to the transport\<close>

text \<open>
  \<open>data\<close> is the content of the input buffer, \<open>rv\<close> the value the \<open>int\<close> variable \<open>rv\<close>
  receives from \<open>nghttp2_session_mem_recv\<close>, \<open>cbs_recv\<close> the callbacks the engine invokes
  during that call and \<open>cbs_send\<close> those it invokes during the final
  \<open>nghttp2_session_send\<close>.
\<close>

definition readcb :: "bytes \<Rightarrow> 32 word \<Rightarrow> cb_event list \<Rightarrow> cb_event list \<Rightarrow> world \<Rightarrow> world" where
  "readcb data rv cbs_recv cbs_send w =
     (let w1 = emit (Nghttp2_session_mem_recv data) w;
          w2 = (case session w1 of
                  None \<Rightarrow> crash Null_pointer w1
                | Some _ \<Rightarrow> fold invoke cbs_recv w1);
          w3 = (if sint rv < 0
                then delete_http2_session_data (emit (Warnx [Lit ''Fatal error: '', Strerror rv]) w2)
                else emit (Evbuffer_drain (unat rv)) w2)
      in session_send cbs_send w3)"

text \<open>
  \<open>want_read\<close> and \<open>want_write\<close> are what \<open>nghttp2_session_want_read\<close> and
  \<open>nghttp2_session_want_write\<close> return, \<open>output_length\<close> is the length of the output
  buffer of the bufferevent.
\<close>

definition writecb :: "32 word \<Rightarrow> 32 word \<Rightarrow> nat \<Rightarrow> world \<Rightarrow> world" where
  "writecb want_read want_write output_length w =
     (case session w of
        None \<Rightarrow> crash Null_pointer w
      | Some _ \<Rightarrow>
          if want_read = 0 \<and> want_write = 0
          then (case bev w of
                  None \<Rightarrow> crash Null_pointer w
                | Some _ \<Rightarrow> if output_length = 0 then delete_http2_session_data w else w)
          else w)"

text \<open>The event flags of \<open>event2/bufferevent.h\<close>.\<close>

definition BEV_EVENT_EOF :: "16 word" where "BEV_EVENT_EOF = 0x10"
definition BEV_EVENT_ERROR :: "16 word" where "BEV_EVENT_ERROR = 0x20"
definition BEV_EVENT_TIMEOUT :: "16 word" where "BEV_EVENT_TIMEOUT = 0x40"
definition BEV_EVENT_CONNECTED :: "16 word" where "BEV_EVENT_CONNECTED = 0x80"

definition eventcb :: "16 word \<Rightarrow> cb_event list \<Rightarrow> world \<Rightarrow> world" where
  "eventcb events cbs w =
     (if events AND BEV_EVENT_CONNECTED \<noteq> 0
      then (let w1 = emit (Stderr (lit (''Connected'' @ nl))) w;
                w2 = emit Setsockopt_TCP_NODELAY w1;
                w3 = initialize_nghttp2_session w2;
                w4 = send_client_connection_header w3;
                w5 = submit_request w4
            in session_send cbs w5)
      else (let w1 = (if events AND BEV_EVENT_EOF \<noteq> 0
                      then emit (Warnx [Lit ''Disconnected from the remote host'']) w
                      else if events AND BEV_EVENT_ERROR \<noteq> 0
                      then emit (Warnx [Lit ''Network error'']) w
                      else if events AND BEV_EVENT_TIMEOUT \<noteq> 0
                      then emit (Warnx [Lit ''Timeout'']) w
                      else w)
            in delete_http2_session_data w1))"

section \<open>The run of the program\<close>

definition create_http2_session_data :: "world" where
  "create_http2_session_data =
     \<lparr>session = None, dnsbase = Some (), bev = None, stream_data = None,
      trace = [], status = Running\<rparr>"

text \<open>\<open>connect_rv\<close> is what \<open>bufferevent_socket_connect_hostname\<close> returns.\<close>

definition initiate_connection :: "string \<Rightarrow> nat \<Rightarrow> int \<Rightarrow> world \<Rightarrow> world" where
  "initiate_connection host prt connect_rv w =
     (let w1 = emit (Bufferevent_socket_connect_hostname host prt) w
      in if connect_rv \<noteq> 0
         then errx [Lit ''Could not connect to the remote host '', Lit host] w1
         else upd (\<lambda>w. w\<lparr>bev := Some \<lparr>bev_ssl = True\<rparr>\<rparr>) w1)"

text \<open>
  What the event loop delivers: a call of the protocol selection callback by the security
  layer during the handshake, or one of the three callbacks of the bufferevent, each with
  what the environment answers during that call.
\<close>

datatype event =
    Ssl_select_next_proto "32 word"
  | Bev_read bytes "32 word" "cb_event list" "cb_event list"
  | Bev_write "32 word" "32 word" nat
  | Bev_event "16 word" "cb_event list"

text \<open>
  \<open>bufferevent_free\<close> removes the callbacks of the bufferevent and releases its SSL object,
  so nothing is delivered for a bufferevent that has been freed.
\<close>

definition deliver :: "event \<Rightarrow> world \<Rightarrow> world" where
  "deliver e w =
     (if status w = Running \<and> bev w \<noteq> None
      then (case e of
              Ssl_select_next_proto r \<Rightarrow> select_next_proto_cb r w
            | Bev_read data rv cbs_recv cbs_send \<Rightarrow> readcb data rv cbs_recv cbs_send w
            | Bev_write want_read want_write output_length \<Rightarrow>
                writecb want_read want_write output_length w
            | Bev_event events cbs \<Rightarrow> eventcb events cbs w)
      else w)"

definition event_base_loop :: "event list \<Rightarrow> world \<Rightarrow> world" where
  "event_base_loop evs w = fold deliver evs w"

text \<open>
  \<open>run\<close> up to the event loop. \<open>parsed\<close> is the result of \<open>http_parser_parse_url\<close>
  (\<open>None\<close> when it fails) and \<open>a\<close> the address of the stream data. The SSL context and
  the SSL object are taken to be created.
\<close>

definition start :: "nat \<Rightarrow> string \<Rightarrow> http_parser_url option \<Rightarrow> int \<Rightarrow> world" where
  "start a str parsed connect_rv =
     (case parsed of
        None \<Rightarrow> errx [Lit ''Could not parse URI '', Lit str] create_http2_session_data
      | Some pu \<Rightarrow>
          (let host = takeWhile (\<lambda>c. c \<noteq> CHR 0x00) (uri_field str pu UF_HOST);
               prt = (if \<not> field_is_set pu UF_PORT then 443 else unat (port pu));
               w1 = (case create_http2_stream_data str pu of
                       Inl f \<Rightarrow> crash f create_http2_session_data
                     | Inr sd \<Rightarrow> create_http2_session_data\<lparr>stream_data := Some (a, sd)\<rparr>)
           in initiate_connection host prt connect_rv w1))"

definition run :: "nat \<Rightarrow> string \<Rightarrow> http_parser_url option \<Rightarrow> int \<Rightarrow> event list \<Rightarrow> world" where
  "run a str parsed connect_rv evs =
     upd (\<lambda>w. w\<lparr>status := Exited 0\<rparr>) (event_base_loop evs (start a str parsed connect_rv))"

text \<open>The release calls, in the order \<open>delete_http2_session_data\<close> makes them.\<close>

definition releases :: "action list" where
  "releases = [SSL_shutdown, Bufferevent_free, Evdns_base_free, Nghttp2_session_del,
               Free_path, Free_authority, Free_stream_data]"

text \<open>
  The calls of one execution of \<open>delete_http2_session_data\<close> on an open context: the
  look-up of the SSL object, with which every execution of the function starts, and the
  release calls.
\<close>

definition teardown_calls :: "action list" where
  "teardown_calls = Bufferevent_openssl_get_ssl # releases"

definition is_teardown_call :: "action \<Rightarrow> bool" where
  "is_teardown_call a = (a \<in> set teardown_calls)"

text \<open>The calls \<open>readcb\<close> makes after ingestion: draining the input buffer and flushing.\<close>

fun is_drain_or_flush :: "action \<Rightarrow> bool" where
  "is_drain_or_flush (Evbuffer_drain n) = True"
| "is_drain_or_flush Nghttp2_session_send = True"
| "is_drain_or_flush _ = False"

fun is_errx :: "action \<Rightarrow> bool" where
  "is_errx (Errx msg) = True"
| "is_errx _ = False"

fun is_submit_request :: "action \<Rightarrow> bool" where
  "is_submit_request (Nghttp2_submit_request hdrs a) = True"
| "is_submit_request _ = False"

fun connected_event :: "event \<Rightarrow> bool" where
  "connected_event (Bev_event events cbs) = (events AND BEV_EVENT_CONNECTED \<noteq> 0)"
| "connected_event _ = False"

section \<open>The URIs of the end-to-end scenarios\<close>

text \<open>
  Scenario A, \<open>https://example.com/\<close>, and scenario B,
  \<open>https://example.com:8443/a/b?x=1\<close>, with the fields a URL parser finds in them.
\<close>

definition uri_A :: string where
  "uri_A = ''https://example.com/''"

definition url_A :: http_parser_url where
  "url_A = \<lparr>field_set = 0x0B, port = 0,
            field_data = (\<lambda>f. case f of
                UF_SCHEMA \<Rightarrow> \<lparr>off = 0, len = 5\<rparr>
              | UF_HOST \<Rightarrow> \<lparr>off = 8, len = 11\<rparr>
              | UF_PATH \<Rightarrow> \<lparr>off = 19, len = 1\<rparr>
              | _ \<Rightarrow> \<lparr>off = 0, len = 0\<rparr>)\<rparr>"

definition uri_B :: string where
  "uri_B = ''https://example.com:8443/a/b?x=1''"

definition url_B :: http_parser_url where
  "url_B = \<lparr>field_set = 0x1F, port = 8443,
            field_data = (\<lambda>f. case f of
                UF_SCHEMA \<Rightarrow> \<lparr>off = 0, len = 5\<rparr>
              | UF_HOST \<Rightarrow> \<lparr>off = 8, len = 11\<rparr>
              | UF_PORT \<Rightarrow> \<lparr>off = 20, len = 4\<rparr>
              | UF_PATH \<Rightarrow> \<lparr>off = 24, len = 4\<rparr>
              | UF_QUERY \<Rightarrow> \<lparr>off = 29, len = 3\<rparr>
              | _ \<Rightarrow> \<lparr>off = 0, len = 0\<rparr>)\<rparr>"

text \<open>An example callback argument: the HEADERS frame of a request on stream \<open>sid\<close>.\<close>

definition request_frame :: "32 word \<Rightarrow> nghttp2_frame" where
  "request_frame sid = \<lparr>hd_type = NGHTTP2_HEADERS, hd_stream_id = sid,
      headers_cat = NGHTTP2_HCAT_REQUEST, headers_nva = []\<rparr>"

text \<open>An example of a response the engine hands over.\<close>

definition response_frame :: "32 word \<Rightarrow> nghttp2_frame" where
  "response_frame sid = \<lparr>hd_type = NGHTTP2_HEADERS, hd_stream_id = sid,
      headers_cat = NGHTTP2_HCAT_RESPONSE, headers_nva = [(lit '':status'', lit ''200'')]\<rparr>"

text \<open>
  Scenario B after \<open>run\<close> has started the connection, and after the connected event during
  which the engine sent the request on stream 1.
\<close>

definition started_B :: world where
  "started_B = start 4096 uri_B (Some url_B) 0"

definition connected_B :: world where
  "connected_B = event_base_loop
      [Bev_event BEV_EVENT_CONNECTED
         [Cb_before_frame_send (request_frame 1) (Some 4096), Cb_send ''frames'']]
      started_B"

section \<open>Observations\<close>

text \<open>The stream identifier held in the stream data of the session.\<close>

definition captured_id :: "world \<Rightarrow> 32 word option" where
  "captured_id w = map_option (\<lambda>(a, sd). stream_id sd) (stream_data w)"

text \<open>
  The context as \<open>initiate_connection\<close> leaves it, and as it is once the session has been
  created.
\<close>

definition opened :: "world \<Rightarrow> bool" where
  "opened w \<longleftrightarrow> status w = Running \<and> dnsbase w \<noteq> None \<and> bev w = Some \<lparr>bev_ssl = True\<rparr>
     \<and> stream_data w \<noteq> None"

definition active :: "world \<Rightarrow> bool" where
  "active w \<longleftrightarrow> opened w \<and> session w \<noteq> None"

text \<open>The trace of \<open>w'\<close> extends that of \<open>w\<close> by actions that satisfy \<open>Q\<close>.\<close>

definition grows :: "(action \<Rightarrow> bool) \<Rightarrow> world \<Rightarrow> world \<Rightarrow> bool" where
  "grows Q w w' \<longleftrightarrow> (\<exists>tl. trace w' = trace w @ tl \<and> list_all Q tl)"

definition keeps :: "world \<Rightarrow> world \<Rightarrow> bool" where
  "keeps w w' \<longleftrightarrow>
     bev w' = bev w \<and> dnsbase w' = dnsbase w
     \<and> map_option fst (stream_data w') = map_option fst (stream_data w)
     \<and> (status w' = status w \<or> status w = Running)"

fun callback_action :: "action \<Rightarrow> bool" where
  "callback_action (Stdout d) = True"
| "callback_action (Stderr d) = True"
| "callback_action (Bufferevent_write d) = True"
| "callback_action Nghttp2_submit_goaway = True"
| "callback_action _ = False"

definition cb_step :: "world \<Rightarrow> world \<Rightarrow> bool" where
  "cb_step w w' \<longleftrightarrow> keeps w w' \<and> session w' = session w \<and> grows callback_action w w'"

definition callbacks5 :: "callback list" where
  "callbacks5 = [Send_callback, Before_frame_send_callback, On_frame_recv_callback,
                 On_data_chunk_recv_callback, On_stream_close_callback]"

text \<open>The lines \<open>print_headers\<close> writes for pairs whose values can be read.\<close>

definition header_lines :: "(buffer \<times> buffer) list \<Rightarrow> action list" where
  "header_lines hdrs =
     concat (map (\<lambda>(name, v). [Stderr name, Stderr (lit '': ''), Stderr v, Stderr (lit nl)]) hdrs)
     @ [Stderr (lit nl)]"

text \<open>
  The events that end the connection: a fatal return of ingestion, a write completion with
  nothing left to do, and any bufferevent event other than connected.
\<close>

fun terminal :: "event \<Rightarrow> bool" where
  "terminal (Bev_read data rv cbs_recv cbs_send) = (sint rv < 0)"
| "terminal (Bev_write want_read want_write output_length) =
     (want_read = 0 \<and> want_write = 0 \<and> output_length = 0)"
| "terminal (Bev_event events cbs) = (events AND BEV_EVENT_CONNECTED = 0)"
| "terminal (Ssl_select_next_proto r) = False"

text \<open>
  The context is closed and \<open>delete_http2_session_data\<close> has been executed exactly once,
  from its first call to its last, in order.
\<close>

definition torn_down :: "world \<Rightarrow> bool" where
  "torn_down w \<longleftrightarrow> bev w = None \<and> dnsbase w = None \<and> session w = None \<and> stream_data w = None
     \<and> filter is_teardown_call (trace w) = teardown_calls"

text \<open>\<open>delete_http2_session_data\<close> has never been entered.\<close>

definition untouched :: "world \<Rightarrow> bool" where
  "untouched w \<longleftrightarrow> filter is_teardown_call (trace w) = []"

text \<open>
  A step outside \<open>delete_http2_session_data\<close>: it keeps the pointers and adds none of
  its calls.
\<close>

definition quiet :: "world \<Rightarrow> world \<Rightarrow> bool" where
  "quiet w w' \<longleftrightarrow> keeps w w' \<and> grows (\<lambda>a. \<not> is_teardown_call a) w w'"

text \<open>
  Inside a handler, before the release function is reached: the context is open and the
  function was never entered, or the process has stopped.
\<close>

definition steady :: "world \<Rightarrow> bool" where
  "steady w \<longleftrightarrow> (opened w \<and> untouched w) \<or> (status w \<noteq> Running \<and> untouched w)"

text \<open>
  The invariant of a run: either the context is open and the release function was never
  entered, or the process has stopped or the bufferevent is freed, and the function was
  entered never or exactly once.
\<close>

definition settled :: "world \<Rightarrow> bool" where
  "settled w \<longleftrightarrow>
     (opened w \<and> untouched w)
     \<or> ((status w \<noteq> Running \<or> bev w = None)
         \<and> (untouched w \<or> filter is_teardown_call (trace w) = teardown_calls))"

section \<open>The stream identifier over a sequence of callbacks\<close>

text \<open>
  The condition under which \<open>before_frame_send_callback\<close> executes its assignment to
  \<open>stream_id\<close>, and the number of times the assignment is executed while the callbacks
  \<open>cbs\<close> run from \<open>w\<close>.
\<close>

fun assigns_stream_id :: "cb_event \<Rightarrow> world \<Rightarrow> bool" where
  "assigns_stream_id (Cb_before_frame_send frame ud) w =
     (hd_type frame = NGHTTP2_HEADERS \<and> headers_cat frame = NGHTTP2_HCAT_REQUEST
      \<and> ud = map_option fst (stream_data w))"
| "assigns_stream_id _ w = False"

fun assignments :: "cb_event list \<Rightarrow> world \<Rightarrow> nat" where
  "assignments [] w = 0"
| "assignments (cb # cbs) w =
     (if assigns_stream_id cb w then 1 else 0) + assignments cbs (invoke cb w)"

text \<open>
  The engine is about to send the request HEADERS frame of the stream whose user data is
  the address \<open>a\<close>; the identifier that frame carries; a response-header or data-chunk
  event reported under the identifier \<open>s\<close>.
\<close>

fun sends_request :: "nat \<Rightarrow> cb_event \<Rightarrow> bool" where
  "sends_request a (Cb_before_frame_send frame ud) =
     (hd_type frame = NGHTTP2_HEADERS \<and> headers_cat frame = NGHTTP2_HCAT_REQUEST \<and> ud = Some a)"
| "sends_request a _ = False"

fun sent_id :: "cb_event \<Rightarrow> 32 word" where
  "sent_id (Cb_before_frame_send frame ud) = hd_stream_id frame"
| "sent_id _ = 0"

fun reports_response :: "32 word \<Rightarrow> cb_event \<Rightarrow> bool" where
  "reports_response s (Cb_on_frame_recv frame) =
     (hd_type frame = NGHTTP2_HEADERS \<and> headers_cat frame = NGHTTP2_HCAT_RESPONSE
      \<and> hd_stream_id frame = s)"
| "reports_response s (Cb_on_data_chunk_recv sid d) = (sid = s)"
| "reports_response s _ = False"

text \<open>
  Modelled from the spec: the protocol engine (the nghttp2 library) is not among the
  sources. The spec calls the stream identifier "the protocol engine's handle for one
  request/response exchange, assigned when the request is actually transmitted", lets the
  program submit "the single GET request", and has the identifier set "when the protocol
  engine reports the outbound request frame's assigned identifier". So over the callbacks
  \<open>cbs\<close> of one connection, for the request submitted with the stream data at address
  \<open>a\<close> and the identifier \<open>s\<close> the engine assigns to it: the engine reports the request
  frame of that stream at most once, that frame carries \<open>s\<close>, and a response-header or
  data-chunk event under \<open>s\<close> comes only after it.
\<close>

definition engine_exchange :: "nat \<Rightarrow> 32 word \<Rightarrow> cb_event list \<Rightarrow> bool" where
  "engine_exchange a s cbs \<longleftrightarrow>
     length (filter (sends_request a) cbs) \<le> 1
     \<and> list_all (\<lambda>cb. sent_id cb = s) (filter (sends_request a) cbs)
     \<and> list_all (\<lambda>n. reports_response s (cbs ! n) \<longrightarrow> list_ex (sends_request a) (take n cbs))
         [0..<length cbs]"

text \<open>The callbacks of the exchange of scenario B on stream 1.\<close>

definition exchange_B :: "cb_event list" where
  "exchange_B = [Cb_before_frame_send (request_frame 1) (Some 4096), Cb_send ''frames'',
                 Cb_on_frame_recv (response_frame 1), Cb_on_data_chunk_recv 1 ''body'']"

section \<open>The derived path and authority\<close>

lemma length_c_string [simp]: "length (c_string s) = Suc (length s)"
  by (simp add: c_string_def)

lemma c_string_range:
  "j + n \<le> length s \<Longrightarrow> take n (drop j (c_string s)) = map Some (take n (drop j s))"
  by (simp add: c_string_def take_map drop_map)

text \<open>
  With a path and a query, both inside the URI, the block holds the path, one byte that is
  never written, and the query; the length counts all three.
\<close>

lemma set_path_with_query:
  assumes "field_is_set pu UF_PATH" and "field_is_set pu UF_QUERY"
    and "f_off pu UF_PATH + f_len pu UF_PATH \<le> length str"
    and "f_off pu UF_QUERY + f_len pu UF_QUERY \<le> length str"
  shows "set_path str pu sd =
           Inr (sd\<lparr>pathlen := Some (f_len pu UF_PATH + (f_len pu UF_QUERY + 1)),
                   path := Some (map Some (uri_field str pu UF_PATH) @ None #
                                 map Some (uri_field str pu UF_QUERY))\<rparr>)"
  using assms
  apply (simp add: set_path_def bindE_def memcpy_def malloc_def c_string_range uri_field_def Let_def
           del: replicate.simps replicate_Suc)
  apply (simp add: min_def)
  done

text \<open>
  Without a query the block holds the path, provided the length the struct carries for the
  query field is zero: the second copy is made whether or not the query bit is set.
\<close>

lemma set_path_without_query:
  assumes "field_is_set pu UF_PATH" and "\<not> field_is_set pu UF_QUERY"
    and "f_off pu UF_PATH + f_len pu UF_PATH \<le> length str"
    and "f_len pu UF_QUERY = 0"
  shows "set_path str pu sd =
           Inr (sd\<lparr>pathlen := Some (f_len pu UF_PATH),
                   path := Some (map Some (uri_field str pu UF_PATH))\<rparr>)"
  using assms
  by (simp add: set_path_def bindE_def memcpy_def malloc_def c_string_range uri_field_def Let_def
        del: replicate.simps replicate_Suc)

lemma dec_length: "0 < k \<Longrightarrow> n < 10 ^ k \<Longrightarrow> length (dec n) \<le> k"
proof (induction n arbitrary: k rule: dec.induct)
  case (1 n)
  show ?case
  proof (cases "n < 10")
    case True
    with "1.prems" show ?thesis by (simp add: dec.simps [of n])
  next
    case False
    from "1.prems" obtain j where k: "k = Suc j"
      by (cases k) auto
    from False "1.prems" k have j: "0 < j"
      by (cases j) auto
    from "1.prems" k have "n div 10 < 10 ^ j"
      by (simp add: less_mult_imp_div_less mult.commute)
    with "1.IH" [OF False j] have "length (dec (n div 10)) \<le> j" by simp
    with False k show ?thesis by (simp add: dec.simps [of n])
  qed
qed

lemma dec_port_length: "length (dec (unat (p :: 16 word))) \<le> 5"
proof -
  have "unat p < 2 ^ 16" using unsigned_less [of p, where 'a = nat] by simp
  then have "unat p < 10 ^ 5" by simp
  then show ?thesis by (intro dec_length) simp_all
qed

text \<open>
  With a port the seven extra bytes always hold the colon, the digits and the NUL, and the
  authority is the host, a colon and the port in decimal.
\<close>

lemma set_authority_with_port:
  assumes "field_is_set pu UF_PORT"
    and "f_off pu UF_HOST + f_len pu UF_HOST \<le> length str"
  shows "bindE (set_authority str pu sd) (\<lambda>sd'. nv_value (authority sd') (authoritylen sd'))
           = Inr (map Some (uri_field str pu UF_HOST @ CHR '':'' # dec (unat (port pu))))"
  using assms dec_port_length [of "port pu"]
  by (simp add: set_authority_def bindE_def memcpy_def malloc_def snprintf_def c_string_range
        uri_field_def Let_def nv_value_def
        del: replicate.simps replicate_Suc)

text \<open>
  Without a port no block is allocated, and the copy of a non-empty host goes through the
  pointer of the fresh struct.
\<close>

lemma set_authority_without_port:
  assumes "\<not> field_is_set pu UF_PORT" and "0 < f_len pu UF_HOST"
    and "f_off pu UF_HOST + f_len pu UF_HOST \<le> length str" and "authority sd = None"
  shows "set_authority str pu sd = Inl Wild_pointer"
  using assms
  by (simp add: set_authority_def bindE_def memcpy_def Let_def)

lemmas create_simps =
  create_http2_stream_data_def set_authority_def set_path_def bindE_def memcpy_def malloc_def
  snprintf_def field_is_set_def f_len_def f_off_def c_string_def nv_value_def Let_def
  dec.simps digit_def

text \<open>
  Claim C1. For a URI with a query the derived path should be the path, a question mark and
  the query. On scenario B the constructor reserves the byte for the question mark and
  counts it in \<open>pathlen\<close>, but never writes it: the eight bytes of the derived path are
  \<open>/a/b\<close>, an indeterminate byte, and \<open>x=1\<close>.
\<close>

theorem create_http2_stream_data_path_scenario_B:
  "bindE (create_http2_stream_data uri_B url_B) (\<lambda>sd. nv_value (path sd) (pathlen sd))
     = Inr (map Some ''/a/b'' @ None # map Some ''x=1'')
   \<and> bindE (create_http2_stream_data uri_B url_B) (\<lambda>sd. nv_value (path sd) (pathlen sd))
     \<noteq> Inr (map Some ''/a/b?x=1'')"
  by (simp add: create_simps uri_B_def url_B_def)

text \<open>
  Claim C2. For a URI without a port the derived authority should be the host. On scenario A
  the constructor copies the host through the \<open>authority\<close> pointer of the struct it has
  just allocated, which was never assigned: no authority is derived.
\<close>

theorem create_http2_stream_data_authority_scenario_A:
  "create_http2_stream_data uri_A url_A = Inl Wild_pointer"
  by (simp add: create_simps uri_A_def url_A_def)

section \<open>Worlds and traces\<close>

text \<open>Once the process has stopped every step is the identity; while it runs, an emitted action is appended to the trace and nothing else changes.\<close>

lemma upd_Running [simp]: "status w = Running \<Longrightarrow> upd f w = f w"
  by (simp add: upd_def)

lemma upd_stopped [simp]: "status w \<noteq> Running \<Longrightarrow> upd f w = w"
  by (simp add: upd_def)

lemma emit_Running: "status w = Running \<Longrightarrow> emit a w = w\<lparr>trace := trace w @ [a]\<rparr>"
  by (simp add: emit_def)

lemma emit_stopped [simp]: "status w \<noteq> Running \<Longrightarrow> emit a w = w"
  by (simp add: emit_def)

lemma emit_fields [simp]:
  "status (emit a w) = status w" "session (emit a w) = session w" "bev (emit a w) = bev w"
  "dnsbase (emit a w) = dnsbase w" "stream_data (emit a w) = stream_data w"
  by (simp_all add: emit_def upd_def)

lemma trace_emit [simp]:
  "trace (emit a w) = (if status w = Running then trace w @ [a] else trace w)"
  by (simp add: emit_def upd_def)

lemma crash_fields [simp]:
  "trace (crash f w) = trace w" "session (crash f w) = session w" "bev (crash f w) = bev w"
  "dnsbase (crash f w) = dnsbase w" "stream_data (crash f w) = stream_data w"
  by (simp_all add: crash_def upd_def)

lemma status_crash [simp]:
  "status (crash f w) = (if status w = Running then Crashed f else status w)"
  by (simp add: crash_def upd_def)

lemma crash_stopped [simp]: "status w \<noteq> Running \<Longrightarrow> crash f w = w"
  by (simp add: crash_def)

lemma errx_fields [simp]:
  "session (errx m w) = session w" "bev (errx m w) = bev w"
  "dnsbase (errx m w) = dnsbase w" "stream_data (errx m w) = stream_data w"
  "trace (errx m w) = (if status w = Running then trace w @ [Errx m] else trace w)"
  "status (errx m w) = (if status w = Running then Exited 1 else status w)"
  by (simp_all add: errx_def upd_def)

lemma errx_stopped [simp]: "status w \<noteq> Running \<Longrightarrow> errx m w = w"
  by (simp add: errx_def)

lemma opened_emit [simp]: "opened (emit a w) = opened w"
  by (simp add: opened_def)

lemma active_emit [simp]: "active (emit a w) = active w"
  by (simp add: active_def)

lemma active_trace_update [simp]: "active (w\<lparr>trace := t\<rparr>) = active w"
  by (simp add: active_def opened_def)

lemma captured_id_emit [simp]: "captured_id (emit a w) = captured_id w"
  by (simp add: captured_id_def)

lemma unat_nonneg:
  assumes "0 \<le> sint (x :: 32 word)"
  shows "unat x = nat (sint x)"
proof -
  have "sint x < 2 ^ 31" using sint_lt [of x] by simp
  then have "sint x < 2 ^ 32" by simp
  with assms have "take_bit 32 (sint x) = sint x" by (simp add: take_bit_int_eq_self)
  then have "uint x = sint x" using uint_sint [of x] by simp
  then show ?thesis by (simp flip: nat_uint_eq)
qed

lemma not_release [simp]:
  "\<not> is_teardown_call (Stdout d)" "\<not> is_teardown_call (Stderr b)" "\<not> is_teardown_call (Warnx m)"
  "\<not> is_teardown_call (Errx m)" "\<not> is_teardown_call (Bufferevent_socket_connect_hostname h p)"
  "\<not> is_teardown_call Setsockopt_TCP_NODELAY" "\<not> is_teardown_call (Nghttp2_session_client_new c)"
  "\<not> is_teardown_call Bufferevent_write_CLIENT_CONNECTION_HEADER" "\<not> is_teardown_call (Bufferevent_write d)"
  "\<not> is_teardown_call (Nghttp2_submit_settings iv)" "\<not> is_teardown_call (Nghttp2_submit_request hs a)"
  "\<not> is_teardown_call Nghttp2_submit_goaway" "\<not> is_teardown_call (Nghttp2_session_mem_recv d)"
  "\<not> is_teardown_call (Evbuffer_drain n)" "\<not> is_teardown_call Nghttp2_session_send"
  by (simp_all add: is_teardown_call_def teardown_calls_def releases_def)

lemma callback_not_release: "callback_action a \<Longrightarrow> \<not> is_teardown_call a"
  by (cases a) simp_all

subsection \<open>Growth of the trace\<close>

lemma grows_refl [simp]: "grows Q w w"
  by (simp add: grows_def)

lemma grows_trans:
  assumes "grows Q w w'" and "grows Q w' w''"
  shows "grows Q w w''"
proof -
  from assms obtain t1 t2 where "trace w' = trace w @ t1" "list_all Q t1"
    "trace w'' = trace w' @ t2" "list_all Q t2"
    unfolding grows_def by blast
  then have "trace w'' = trace w @ (t1 @ t2) \<and> list_all Q (t1 @ t2)" by simp
  then show ?thesis unfolding grows_def by blast
qed

lemma grows_mono:
  assumes "grows Q w w'" and "\<And>a. Q a \<Longrightarrow> R a"
  shows "grows R w w'"
proof -
  from assms(1) obtain tl where "trace w' = trace w @ tl" "list_all Q tl"
    unfolding grows_def by blast
  with assms(2) have "trace w' = trace w @ tl \<and> list_all R tl"
    by (auto simp: list_all_iff)
  then show ?thesis unfolding grows_def by blast
qed

lemma grows_same_trace: "trace w' = trace w \<Longrightarrow> grows Q w w'"
  by (simp add: grows_def)

lemma grows_emit:
  assumes "Q a"
  shows "grows Q w (emit a w)"
proof (cases "status w = Running")
  case True
  with assms have "trace (emit a w) = trace w @ [a] \<and> list_all Q [a]" by simp
  then show ?thesis unfolding grows_def by blast
next
  case False
  then show ?thesis by simp
qed

lemma grows_filter:
  assumes "grows Q w w'" and "\<And>a. Q a \<Longrightarrow> \<not> P a"
  shows "filter P (trace w') = filter P (trace w)"
proof -
  from assms(1) obtain tl where tl: "trace w' = trace w @ tl" "list_all Q tl"
    unfolding grows_def by blast
  with assms(2) have "filter P tl = []"
    by (auto simp: list_all_iff filter_empty_conv)
  with tl show ?thesis by simp
qed

lemma grows_upd:
  assumes "\<And>v. trace (f v) = trace v"
  shows "grows Q w (upd f w)"
  using assms by (cases "status w = Running") (simp_all add: grows_same_trace)

lemma grows_crash [simp]: "grows Q w (crash f w)"
  by (simp add: grows_same_trace)

lemma grows_errx: "Q (Errx m) \<Longrightarrow> grows Q w (errx m w)"
  unfolding errx_def by (rule grows_trans [OF grows_emit grows_upd]) simp_all

subsection \<open>What a step keeps\<close>

lemma keeps_refl [simp]: "keeps w w"
  by (simp add: keeps_def)

lemma keeps_trans: "keeps w w' \<Longrightarrow> keeps w' w'' \<Longrightarrow> keeps w w''"
  unfolding keeps_def by auto

lemma keeps_emit [simp]: "keeps w (emit a w)"
  by (simp add: keeps_def)

lemma keeps_crash [simp]: "keeps w (crash f w)"
  by (simp add: keeps_def)

lemma keeps_errx [simp]: "keeps w (errx m w)"
  by (simp add: keeps_def)

lemma keeps_opened:
  "keeps w w' \<Longrightarrow> opened w \<Longrightarrow> status w' = Running \<Longrightarrow> opened w'"
  unfolding keeps_def opened_def by (cases "stream_data w'") auto

subsection \<open>Steps of callbacks\<close>

lemma cb_step_refl [simp]: "cb_step w w"
  by (simp add: cb_step_def)

lemma cb_step_trans: "cb_step w w' \<Longrightarrow> cb_step w' w'' \<Longrightarrow> cb_step w w''"
  unfolding cb_step_def by (auto intro: keeps_trans grows_trans)

lemma cb_step_emit: "callback_action a \<Longrightarrow> cb_step w (emit a w)"
  by (simp add: cb_step_def grows_emit)

lemma cb_step_crash [simp]: "cb_step w (crash f w)"
  by (simp add: cb_step_def grows_same_trace)

lemma cb_step_emit2:
  "callback_action a \<Longrightarrow> callback_action b \<Longrightarrow> cb_step w (emit b (emit a w))"
  by (rule cb_step_trans [OF cb_step_emit cb_step_emit])

lemma cb_step_print_header: "cb_step w (print_header (name, Inr v) w)"
proof -
  have "cb_step w (emit (Stderr (lit '': '')) (emit (Stderr name) w))"
    by (rule cb_step_emit2) simp_all
  moreover have "cb_step (emit (Stderr (lit '': '')) (emit (Stderr name) w))
      (emit (Stderr (lit nl)) (emit (Stderr v) (emit (Stderr (lit '': '')) (emit (Stderr name) w))))"
    by (rule cb_step_emit2) simp_all
  ultimately show ?thesis
    by (simp add: Let_def) (rule cb_step_trans)
qed

lemma cb_step_fold_print_header:
  "cb_step w (fold print_header (map (\<lambda>(name, v). (name, Inr v)) nva) w)"
proof (induction nva arbitrary: w)
  case Nil
  show ?case by simp
next
  case (Cons x nva)
  obtain name v where x: "x = (name, v)" by (cases x)
  have "cb_step w (print_header (name, Inr v) w)" by (rule cb_step_print_header)
  moreover have "cb_step (print_header (name, Inr v) w)
     (fold print_header (map (\<lambda>(name, v). (name, Inr v)) nva) (print_header (name, Inr v) w))"
    by (rule Cons)
  ultimately show ?case
    unfolding x by (simp del: print_header.simps) (rule cb_step_trans)
qed

lemma cb_step_print_headers:
  "cb_step w (print_headers (map (\<lambda>(name, v). (name, Inr v)) nva) w)"
  unfolding print_headers_def
  by (rule cb_step_trans [OF cb_step_fold_print_header cb_step_emit]) simp

lemma cb_step_send_callback: "cb_step w (send_callback d w)"
  unfolding send_callback_def
  by (cases "bev w") (simp_all add: cb_step_emit)

lemma cb_step_before_frame_send: "cb_step w (before_frame_send_callback frame ud w)"
  unfolding before_frame_send_callback_def cb_step_def keeps_def
  by (cases "stream_data w"; cases "status w = Running") (auto simp: upd_def grows_same_trace)

lemma cb_step_on_frame_recv: "cb_step w (on_frame_recv_callback frame w)"
proof -
  have "cb_step w (print_headers (map (\<lambda>(name, v). (name, Inr v)) (headers_nva frame))
                     (emit (Stderr (lit (''Response headers:'' @ nl))) w))"
    by (rule cb_step_trans [OF cb_step_emit cb_step_print_headers]) simp
  then show ?thesis
    unfolding on_frame_recv_callback_def
    by (cases "stream_data w"; cases "hd_type frame") (auto split: prod.splits)
qed

lemma cb_step_on_data_chunk_recv: "cb_step w (on_data_chunk_recv_callback sid d w)"
  unfolding on_data_chunk_recv_callback_def
  by (cases "stream_data w") (auto simp: cb_step_emit)

lemma cb_step_on_stream_close: "cb_step w (on_stream_close_callback sid ec w)"
  unfolding on_stream_close_callback_def
  by (cases "stream_data w") (auto simp: cb_step_emit2)

lemma cb_step_invoke: "cb_step w (invoke cb w)"
  by (cases cb)
    (simp_all add: cb_step_send_callback cb_step_before_frame_send cb_step_on_frame_recv
       cb_step_on_data_chunk_recv cb_step_on_stream_close)

lemma cb_step_fold_invoke: "cb_step w (fold invoke cbs w)"
proof (induction cbs arbitrary: w)
  case Nil
  show ?case by simp
next
  case (Cons cb cbs)
  have "cb_step w (invoke cb w)" by (rule cb_step_invoke)
  moreover have "cb_step (invoke cb w) (fold invoke cbs (invoke cb w))" by (rule Cons)
  ultimately show ?case by simp (rule cb_step_trans)
qed


lemma grows_fold_invoke:
  assumes "\<And>a. callback_action a \<Longrightarrow> Q a"
  shows "grows Q w (fold invoke cbs w)"
  using cb_step_fold_invoke [of w cbs] assms
  by (auto simp: cb_step_def intro: grows_mono)

subsection \<open>Callbacks on an open context do not fault\<close>

lemma status_print_header [simp]: "status (print_header (name, Inr v) w) = status w"
  by (simp add: Let_def)

lemma status_fold_print_header [simp]:
  "status (fold print_header (map (\<lambda>(name, v). (name, Inr v)) nva) w) = status w"
  by (induction nva arbitrary: w) (auto simp del: print_header.simps)

lemma status_invoke:
  assumes "bev w \<noteq> None" and "stream_data w \<noteq> None"
  shows "status (invoke cb w) = status w"
  using assms
  by (cases cb)
     (auto simp: send_callback_def before_frame_send_callback_def on_frame_recv_callback_def
        on_data_chunk_recv_callback_def on_stream_close_callback_def print_headers_def upd_def
        split: frame_type.splits)

lemma status_fold_invoke:
  assumes "bev w \<noteq> None" and "stream_data w \<noteq> None"
  shows "status (fold invoke cbs w) = status w"
  using assms
proof (induction cbs arbitrary: w)
  case Nil
  show ?case by simp
next
  case (Cons cb cbs)
  from cb_step_invoke [of w cb] Cons.prems
  have "bev (invoke cb w) \<noteq> None" "stream_data (invoke cb w) \<noteq> None"
    by (auto simp: cb_step_def keeps_def)
  then have "status (fold invoke cbs (invoke cb w)) = status (invoke cb w)"
    by (rule Cons.IH)
  with status_invoke [OF Cons.prems] show ?case by simp
qed

lemma opened_fold_invoke:
  assumes "opened w"
  shows "opened (fold invoke cbs w)"
proof -
  from assms have "status (fold invoke cbs w) = Running"
    using status_fold_invoke [of w cbs] by (auto simp: opened_def)
  with assms cb_step_fold_invoke [of w cbs] show ?thesis
    by (auto simp: cb_step_def intro: keeps_opened)
qed

lemma opened_invoke: "opened w \<Longrightarrow> opened (invoke cb w)"
  using opened_fold_invoke [of w "[cb]"] by simp

lemma active_fold_invoke:
  assumes "active w"
  shows "active (fold invoke cbs w)"
  using assms opened_fold_invoke [of w cbs] cb_step_fold_invoke [of w cbs]
  by (auto simp: active_def cb_step_def)

subsection \<open>A stopped process\<close>

lemma stopped_delete: "status w \<noteq> Running \<Longrightarrow> delete_http2_session_data w = w"
  by (cases "bev w"; cases "dnsbase w"; cases "stream_data w")
     (simp_all add: delete_http2_session_data_def delete_http2_stream_data_def Let_def)

lemma stopped_invoke: "status w \<noteq> Running \<Longrightarrow> invoke cb w = w"
proof (cases cb)
  case (Cb_on_frame_recv frame)
  assume s: "status w \<noteq> Running"
  have "fold print_header nva w = w" for nva
  proof (induction nva)
    case Nil
    show ?case by simp
  next
    case (Cons x nva)
    obtain name v where "x = (name, v)" by (cases x)
    with s Cons show ?case by (cases v) (simp_all add: Let_def)
  qed
  with s Cb_on_frame_recv show ?thesis
    by (cases "stream_data w"; cases "hd_type frame")
       (auto simp: on_frame_recv_callback_def print_headers_def)
qed (cases "stream_data w"; cases "bev w";
     auto simp: send_callback_def before_frame_send_callback_def
       on_data_chunk_recv_callback_def on_stream_close_callback_def)+

lemma stopped_fold_invoke: "status w \<noteq> Running \<Longrightarrow> fold invoke cbs w = w"
  by (induction cbs) (simp_all add: stopped_invoke)

lemma stopped_session_send: "status w \<noteq> Running \<Longrightarrow> session_send cbs w = w"
  by (cases "session w") (simp_all add: session_send_def Let_def stopped_fold_invoke)

lemma stopped_deliver: "status w \<noteq> Running \<Longrightarrow> deliver e w = w"
  by (simp add: deliver_def)

lemma closed_deliver: "bev w = None \<Longrightarrow> deliver e w = w"
  by (simp add: deliver_def)

lemma stopped_loop: "status w \<noteq> Running \<Longrightarrow> event_base_loop evs w = w"
  unfolding event_base_loop_def by (induction evs) (simp_all add: stopped_deliver)

lemma closed_loop: "bev w = None \<Longrightarrow> event_base_loop evs w = w"
  unfolding event_base_loop_def by (induction evs) (simp_all add: closed_deliver)

lemma loop_append:
  "event_base_loop (xs @ ys) w = event_base_loop ys (event_base_loop xs w)"
  by (simp add: event_base_loop_def)

lemma loop_Cons: "event_base_loop (e # evs) w = event_base_loop evs (deliver e w)"
  by (simp add: event_base_loop_def)

section \<open>The connected event\<close>

text \<open>What the handler does when the request header values can be read, step by step.\<close>

lemma fold_print_header_readable:
  assumes "status w = Running"
  shows "fold print_header (map (\<lambda>(name, v). (name, Inr v)) hdrs) w =
           w\<lparr>trace := trace w @ concat (map (\<lambda>(name, v).
                [Stderr name, Stderr (lit '': ''), Stderr v, Stderr (lit nl)]) hdrs)\<rparr>"
  using assms
proof (induction hdrs arbitrary: w)
  case Nil
  then show ?case by simp
next
  case (Cons x hdrs)
  obtain name v where x: "x = (name, v)" by (cases x)
  define w' where "w' = w\<lparr>trace := trace w @ [Stderr name, Stderr (lit '': ''), Stderr v, Stderr (lit nl)]\<rparr>"
  from Cons.prems have ph: "print_header (name, Inr v) w = w'"
    by (simp add: Let_def emit_Running w'_def)
  from Cons.prems have "status w' = Running" by (simp add: w'_def)
  from Cons.IH [OF this] show ?case
    unfolding x by (simp add: ph del: print_header.simps) (simp add: w'_def)
qed

lemma print_headers_readable:
  assumes "status w = Running"
  shows "print_headers (map (\<lambda>(name, v). (name, Inr v)) hdrs) w =
           w\<lparr>trace := trace w @ header_lines hdrs\<rparr>"
  using assms
  by (simp add: print_headers_def fold_print_header_readable emit_Running header_lines_def)

lemma nva_bytes_readable: "nva_bytes (map (\<lambda>(name, v). (name, Inr v)) hdrs) = hdrs"
  by (induction hdrs) (auto simp: nva_bytes_def)

lemma submit_request_readable:
  assumes "status w = Running" and "stream_data w = Some (a, sd)" and "session w = Some cs"
    and "request_headers sd = map (\<lambda>(name, v). (name, Inr v)) hdrs"
  shows "submit_request w =
           w\<lparr>trace := trace w @ Stderr (lit (''Request headers:'' @ nl)) # header_lines hdrs
                        @ [Nghttp2_submit_request hdrs a]\<rparr>"
  unfolding submit_request_def using assms
  by (simp add: Let_def print_headers_readable emit_Running nva_bytes_readable)

lemma session_send_live:
  assumes "status w = Running" and "session w = Some cs"
  shows "session_send cbs w = fold invoke cbs (w\<lparr>trace := trace w @ [Nghttp2_session_send]\<rparr>)"
  using assms by (simp add: session_send_def Let_def emit_Running)

lemma connection_header_opened:
  assumes "status w = Running" and "bev w = Some b"
  shows "send_client_connection_header (initialize_nghttp2_session w) =
           w\<lparr>session := Some callbacks5,
             trace := trace w @ [Nghttp2_session_client_new callbacks5,
                                 Bufferevent_write_CLIENT_CONNECTION_HEADER,
                                 Nghttp2_submit_settings [(NGHTTP2_SETTINGS_MAX_CONCURRENT_STREAMS, 100)]]\<rparr>"
  using assms
  by (simp add: send_client_connection_header_def initialize_nghttp2_session_def Let_def
      emit_Running callbacks5_def)

lemma connected_setup:
  assumes "opened w" and "stream_data w = Some (a, sd)"
    and "uri_range (uri sd) (u sd) UF_SCHEMA = Inr scheme"
    and "nv_value (authority sd) (authoritylen sd) = Inr auth"
    and "nv_value (path sd) (pathlen sd) = Inr pth"
  shows "submit_request (send_client_connection_header (initialize_nghttp2_session
           (emit Setsockopt_TCP_NODELAY (emit (Stderr (lit (''Connected'' @ nl))) w)))) =
         w\<lparr>session := Some callbacks5,
           trace := trace w @
             [Stderr (lit (''Connected'' @ nl)),
              Setsockopt_TCP_NODELAY,
              Nghttp2_session_client_new callbacks5,
              Bufferevent_write_CLIENT_CONNECTION_HEADER,
              Nghttp2_submit_settings [(NGHTTP2_SETTINGS_MAX_CONCURRENT_STREAMS, 100)],
              Stderr (lit (''Request headers:'' @ nl))]
             @ header_lines [(lit '':method'', lit ''GET''), (lit '':scheme'', scheme),
                             (lit '':authority'', auth), (lit '':path'', pth)]
             @ [Nghttp2_submit_request
                  [(lit '':method'', lit ''GET''), (lit '':scheme'', scheme),
                   (lit '':authority'', auth), (lit '':path'', pth)] a]\<rparr>"
proof -
  let ?hdrs = "[(lit '':method'', lit ''GET''), (lit '':scheme'', scheme),
                (lit '':authority'', auth), (lit '':path'', pth)]"
  from assms(1) have run: "status w = Running" and b: "bev w = Some \<lparr>bev_ssl = True\<rparr>"
    by (auto simp: opened_def)
  from assms(3-5) have rh: "request_headers sd = map (\<lambda>(name, v). (name, Inr v)) ?hdrs"
    by (simp add: request_headers_def)
  define w2 where "w2 = emit Setsockopt_TCP_NODELAY (emit (Stderr (lit (''Connected'' @ nl))) w)"
  have w2: "w2 = w\<lparr>trace := trace w @ [Stderr (lit (''Connected'' @ nl)), Setsockopt_TCP_NODELAY]\<rparr>"
    using run by (simp add: w2_def emit_Running)
  define w4 where "w4 = send_client_connection_header (initialize_nghttp2_session w2)"
  have w4: "w4 = w2\<lparr>session := Some callbacks5,
             trace := trace w2 @ [Nghttp2_session_client_new callbacks5,
                                 Bufferevent_write_CLIENT_CONNECTION_HEADER,
                                 Nghttp2_submit_settings [(NGHTTP2_SETTINGS_MAX_CONCURRENT_STREAMS, 100)]]\<rparr>"
    unfolding w4_def by (rule connection_header_opened [of w2 "\<lparr>bev_ssl = True\<rparr>"])
      (simp_all add: w2 run b)
  have "submit_request w4 =
      w4\<lparr>trace := trace w4 @ Stderr (lit (''Request headers:'' @ nl)) # header_lines ?hdrs
                        @ [Nghttp2_submit_request ?hdrs a]\<rparr>"
    by (rule submit_request_readable [where cs = callbacks5, OF _ _ _ rh])
       (simp_all add: w4 w2 run assms(2))
  then show ?thesis
    unfolding w4_def [symmetric] w2_def [symmetric] by (simp add: w4 w2)
qed


section \<open>Write completion\<close>

lemma delete_opened:
  assumes "opened w"
  shows "delete_http2_session_data w =
           w\<lparr>session := None, dnsbase := None, bev := None, stream_data := None,
             trace := trace w @ teardown_calls\<rparr>"
  using assms
  by (auto simp: opened_def delete_http2_session_data_def delete_http2_stream_data_def
      teardown_calls_def releases_def Let_def emit_Running)

text \<open>
  Claim C4. On a write completion delivered to an active context the release function is
  executed (the look-up of the SSL object, then the release calls in order) if and only if
  the engine wants neither to read nor to write and the output buffer is empty; otherwise
  the handler does nothing. The answer is computed from the three values
  of this call alone, so it is evaluated again at every write completion.
\<close>

theorem writecb_teardown_iff:
  assumes "active w"
  shows "trace (deliver (Bev_write want_read want_write output_length) w) =
           trace w @ (if want_read = 0 \<and> want_write = 0 \<and> output_length = 0 then teardown_calls else [])
         \<and> bev (deliver (Bev_write want_read want_write output_length) w) =
           (if want_read = 0 \<and> want_write = 0 \<and> output_length = 0 then None else bev w)"
  using assms delete_opened [of w]
  by (auto simp: active_def deliver_def writecb_def opened_def)

section \<open>Ingestion\<close>

lemma readcb_fatal:
  assumes "active w" and "sint rv < 0"
  shows "readcb data rv cbs_recv cbs_send w =
           (fold invoke cbs_recv (emit (Nghttp2_session_mem_recv data) w))
             \<lparr>session := None, dnsbase := None, bev := None, stream_data := None,
              trace := trace (fold invoke cbs_recv (emit (Nghttp2_session_mem_recv data) w))
                 @ Warnx [Lit ''Fatal error: '', Strerror rv] # teardown_calls @ [Nghttp2_session_send],
              status := Crashed Null_pointer\<rparr>"
proof -
  define w2 where "w2 = fold invoke cbs_recv (emit (Nghttp2_session_mem_recv data) w)"
  from assms(1) have a2: "active w2"
    unfolding w2_def by (intro active_fold_invoke) simp
  then have r2: "status w2 = Running" and o2: "opened w2"
    by (auto simp: active_def opened_def)
  from assms(1) have sw: "session w \<noteq> None" by (simp add: active_def)
  from o2 have "opened (emit (Warnx [Lit ''Fatal error: '', Strerror rv]) w2)" by simp
  from delete_opened [OF this] r2 assms(2) sw show ?thesis
    unfolding w2_def [symmetric]
    by (auto simp: readcb_def Let_def session_send_def simp flip: w2_def)
qed

lemma readcb_consumed:
  assumes "active w" and "0 \<le> sint rv"
  shows "readcb data rv cbs_recv cbs_send w =
           fold invoke cbs_send
             ((fold invoke cbs_recv (emit (Nghttp2_session_mem_recv data) w))
                \<lparr>trace := trace (fold invoke cbs_recv (emit (Nghttp2_session_mem_recv data) w))
                    @ [Evbuffer_drain (nat (sint rv)), Nghttp2_session_send]\<rparr>)"
proof -
  define w2 where "w2 = fold invoke cbs_recv (emit (Nghttp2_session_mem_recv data) w)"
  from assms(1) have a2: "active w2"
    unfolding w2_def by (intro active_fold_invoke) simp
  then have r2: "status w2 = Running" and s2: "session w2 \<noteq> None"
    by (auto simp: active_def opened_def)
  from assms(1) have sw: "session w \<noteq> None" by (simp add: active_def)
  from r2 s2 assms(2) sw show ?thesis
    unfolding w2_def [symmetric]
    by (auto simp: readcb_def Let_def session_send_def emit_Running unat_nonneg
        simp flip: w2_def)
qed

text \<open>The callbacks of the engine neither drain the input buffer nor flush.\<close>

lemma callback_not_drain_flush: "callback_action a \<Longrightarrow> \<not> is_drain_or_flush a"
  by (cases a) simp_all

lemma ingest_not_drain_flush:
  "filter is_drain_or_flush
     (trace (fold invoke cbs_recv (emit (Nghttp2_session_mem_recv data) w)))
   = filter is_drain_or_flush (trace w)"
proof -
  let ?Q = "\<lambda>a. \<not> is_drain_or_flush a"
  have "grows ?Q w (emit (Nghttp2_session_mem_recv data) w)"
    by (rule grows_emit) simp
  moreover have "grows ?Q (emit (Nghttp2_session_mem_recv data) w)
      (fold invoke cbs_recv (emit (Nghttp2_session_mem_recv data) w))"
    by (rule grows_fold_invoke) (rule callback_not_drain_flush)
  ultimately have "grows ?Q w (fold invoke cbs_recv (emit (Nghttp2_session_mem_recv data) w))"
    by (rule grows_trans)
  then show ?thesis by (rule grows_filter) simp
qed

lemma fold_invoke_not_drain_flush:
  "filter is_drain_or_flush (trace (fold invoke cbs w))
   = filter is_drain_or_flush (trace w)"
proof -
  have "grows (\<lambda>a. \<not> is_drain_or_flush a) w (fold invoke cbs w)"
    by (rule grows_fold_invoke) (rule callback_not_drain_flush)
  then show ?thesis by (rule grows_filter) simp
qed

text \<open>
  Claim C6. In the read handler on an active context, after the engine has ingested the
  input (with whatever callbacks it invoked), the handler does exactly this. A negative
  \<open>rv\<close> is reported with \<open>warnx\<close>, the context is torn down, \<open>nghttp2_session_send\<close> is
  called on the session pointer that the teardown has just set to NULL, and the process
  faults there; nothing is drained. A non-negative \<open>rv\<close> makes one call of
  \<open>evbuffer_drain\<close>, for exactly \<open>rv\<close> bytes, then one call of \<open>nghttp2_session_send\<close>,
  during which only the callbacks of the engine run, and the context stays active. In
  both cases these are the only drain and flush calls of the handler.
\<close>

theorem readcb_ingest_then_flush:
  assumes "active w"
  shows "(sint rv < 0 \<longrightarrow>
            readcb data rv cbs_recv cbs_send w =
              (fold invoke cbs_recv (emit (Nghttp2_session_mem_recv data) w))
                \<lparr>session := None, dnsbase := None, bev := None, stream_data := None,
                 trace := trace (fold invoke cbs_recv (emit (Nghttp2_session_mem_recv data) w))
                    @ Warnx [Lit ''Fatal error: '', Strerror rv] # teardown_calls
                    @ [Nghttp2_session_send],
                 status := Crashed Null_pointer\<rparr>
          \<and> filter is_drain_or_flush (trace (readcb data rv cbs_recv cbs_send w)) =
              filter is_drain_or_flush (trace w) @ [Nghttp2_session_send])
       \<and> (0 \<le> sint rv \<longrightarrow>
            readcb data rv cbs_recv cbs_send w =
              fold invoke cbs_send
                ((fold invoke cbs_recv (emit (Nghttp2_session_mem_recv data) w))
                   \<lparr>trace := trace (fold invoke cbs_recv (emit (Nghttp2_session_mem_recv data) w))
                       @ [Evbuffer_drain (nat (sint rv)), Nghttp2_session_send]\<rparr>)
          \<and> filter is_drain_or_flush (trace (readcb data rv cbs_recv cbs_send w)) =
              filter is_drain_or_flush (trace w)
              @ [Evbuffer_drain (nat (sint rv)), Nghttp2_session_send]
          \<and> active (readcb data rv cbs_recv cbs_send w))"
proof (cases "sint rv < 0")
  case True
  have "filter is_drain_or_flush (trace (readcb data rv cbs_recv cbs_send w)) =
          filter is_drain_or_flush (trace w) @ [Nghttp2_session_send]"
    unfolding readcb_fatal [OF assms True]
    by (simp add: ingest_not_drain_flush) (simp add: teardown_calls_def releases_def)
  with readcb_fatal [OF assms True, of data cbs_recv cbs_send] True show ?thesis by simp
next
  case False
  then have nn: "0 \<le> sint rv" by simp
  define w3 where "w3 = (fold invoke cbs_recv (emit (Nghttp2_session_mem_recv data) w))
      \<lparr>trace := trace (fold invoke cbs_recv (emit (Nghttp2_session_mem_recv data) w))
          @ [Evbuffer_drain (nat (sint rv)), Nghttp2_session_send]\<rparr>"
  from assms have "active (fold invoke cbs_recv (emit (Nghttp2_session_mem_recv data) w))"
    by (intro active_fold_invoke) simp
  then have a3: "active w3" by (simp add: w3_def)
  have eq: "readcb data rv cbs_recv cbs_send w = fold invoke cbs_send w3"
    unfolding w3_def by (rule readcb_consumed [OF assms nn])
  have "filter is_drain_or_flush (trace (fold invoke cbs_send w3)) =
          filter is_drain_or_flush (trace w)
          @ [Evbuffer_drain (nat (sint rv)), Nghttp2_session_send]"
    unfolding fold_invoke_not_drain_flush
    by (simp add: w3_def ingest_not_drain_flush)
  with active_fold_invoke [OF a3, of cbs_send] False eq show ?thesis
    by (simp add: w3_def)
qed

section \<open>Events of other streams\<close>

lemma create_stream_id:
  assumes "create_http2_stream_data str pu = Inr sd"
  shows "stream_id sd = - 1"
  using assms
  by (auto simp: create_http2_stream_data_def set_authority_def set_path_def bindE_def Let_def
      split: sum.splits if_splits option.splits prod.splits)

text \<open>
  Claim C10. A data chunk whose stream identifier is not the captured one leaves the trace,
  and so the standard output, as it was; a received frame that is not a response HEADERS
  frame on the captured stream leaves the trace, and so the diagnostic stream, as it was.
  The constructor initialises the identifier to \<open>-1\<close>, so while it holds \<open>-1\<close> no event
  with a positive identifier matches.
\<close>

theorem unmatched_events_write_nothing:
  "(captured_id w \<noteq> Some sid \<longrightarrow> trace (on_data_chunk_recv_callback sid data w) = trace w)
   \<and> (\<not> (hd_type frame = NGHTTP2_HEADERS \<and> headers_cat frame = NGHTTP2_HCAT_RESPONSE
          \<and> captured_id w = Some (hd_stream_id frame))
        \<longrightarrow> trace (on_frame_recv_callback frame w) = trace w)
   \<and> (create_http2_stream_data str pu = Inr sd \<longrightarrow> stream_id sd = - 1)
   \<and> (captured_id w = Some (- 1) \<and> 0 < sint sid \<and> hd_stream_id frame = sid
        \<longrightarrow> trace (on_data_chunk_recv_callback sid data w) = trace w
          \<and> trace (on_frame_recv_callback frame w) = trace w)"
proof -
  have a: "trace (on_data_chunk_recv_callback sid data w) = trace w"
    if "captured_id w \<noteq> Some sid"
    using that
    by (cases "stream_data w")
       (auto simp: captured_id_def on_data_chunk_recv_callback_def)
  have b: "trace (on_frame_recv_callback frame w) = trace w"
    if "\<not> (hd_type frame = NGHTTP2_HEADERS \<and> headers_cat frame = NGHTTP2_HCAT_RESPONSE
          \<and> captured_id w = Some (hd_stream_id frame))"
    using that
    by (cases "stream_data w"; cases "hd_type frame")
       (auto simp: captured_id_def on_frame_recv_callback_def)
  have c: "sid \<noteq> - 1" if "0 < sint sid"
    using that by auto
  from a b c create_stream_id [of str pu sd] show ?thesis by auto
qed

section \<open>Scenario B\<close>

text \<open>The worlds of scenario B, computed once: after the start, and after the connected event during which the engine reported the request frame on stream 1.\<close>

lemma create_B:
  "create_http2_stream_data uri_B url_B =
     Inr \<lparr>uri = uri_B, u = url_B,
          authority = Some (map Some ''example.com:8443'' @ [Some (CHR 0x00), None]),
          path = Some (map Some ''/a/b'' @ None # map Some ''x=1''),
          authoritylen = Some 16, pathlen = Some 8, stream_id = - 1\<rparr>"
  by (simp add: create_simps uri_B_def url_B_def)

lemma started_B_eq:
  "started_B =
     \<lparr>session = None, dnsbase = Some (), bev = Some \<lparr>bev_ssl = True\<rparr>,
      stream_data = Some (4096, \<lparr>uri = uri_B, u = url_B,
          authority = Some (map Some ''example.com:8443'' @ [Some (CHR 0x00), None]),
          path = Some (map Some ''/a/b'' @ None # map Some ''x=1''),
          authoritylen = Some 16, pathlen = Some 8, stream_id = - 1\<rparr>),
      trace = [Bufferevent_socket_connect_hostname ''example.com'' 8443], status = Running\<rparr>"
  unfolding started_B_def start_def
  apply (simp add: create_B)
  apply (simp add: initiate_connection_def create_http2_session_data_def Let_def emit_Running
      uri_field_def uri_B_def url_B_def f_off_def f_len_def field_is_set_def)
  done

lemma opened_started_B: "opened started_B"
  by (simp add: started_B_eq opened_def)

lemma untouched_started_B: "untouched started_B"
  by (simp add: started_B_eq untouched_def)

lemma connected_B_eq:
  "connected_B =
     started_B\<lparr>session := Some callbacks5,
       stream_data := Some (4096, \<lparr>uri = uri_B, u = url_B,
          authority = Some (map Some ''example.com:8443'' @ [Some (CHR 0x00), None]),
          path = Some (map Some ''/a/b'' @ None # map Some ''x=1''),
          authoritylen = Some 16, pathlen = Some 8, stream_id = 1\<rparr>),
       trace := trace started_B @
         [Stderr (lit (''Connected'' @ nl)),
          Setsockopt_TCP_NODELAY,
          Nghttp2_session_client_new callbacks5,
          Bufferevent_write_CLIENT_CONNECTION_HEADER,
          Nghttp2_submit_settings [(NGHTTP2_SETTINGS_MAX_CONCURRENT_STREAMS, 100)],
          Stderr (lit (''Request headers:'' @ nl))]
         @ header_lines [(lit '':method'', lit ''GET''), (lit '':scheme'', lit ''https''),
                         (lit '':authority'', lit ''example.com:8443''),
                         (lit '':path'', map Some ''/a/b'' @ None # map Some ''x=1'')]
         @ [Nghttp2_submit_request
              [(lit '':method'', lit ''GET''), (lit '':scheme'', lit ''https''),
               (lit '':authority'', lit ''example.com:8443''),
               (lit '':path'', map Some ''/a/b'' @ None # map Some ''x=1'')] 4096,
            Nghttp2_session_send, Bufferevent_write ''frames'']\<rparr>"
proof -
  define w5 where "w5 = submit_request (send_client_connection_header (initialize_nghttp2_session
           (emit Setsockopt_TCP_NODELAY (emit (Stderr (lit (''Connected'' @ nl))) started_B))))"
  have sdB: "stream_data started_B = Some (4096, \<lparr>uri = uri_B, u = url_B,
          authority = Some (map Some ''example.com:8443'' @ [Some (CHR 0x00), None]),
          path = Some (map Some ''/a/b'' @ None # map Some ''x=1''),
          authoritylen = Some 16, pathlen = Some 8, stream_id = - 1\<rparr>)"
    by (simp add: started_B_eq)
  have w5: "w5 = started_B\<lparr>session := Some callbacks5,
       trace := trace started_B @
         [Stderr (lit (''Connected'' @ nl)),
          Setsockopt_TCP_NODELAY,
          Nghttp2_session_client_new callbacks5,
          Bufferevent_write_CLIENT_CONNECTION_HEADER,
          Nghttp2_submit_settings [(NGHTTP2_SETTINGS_MAX_CONCURRENT_STREAMS, 100)],
          Stderr (lit (''Request headers:'' @ nl))]
         @ header_lines [(lit '':method'', lit ''GET''), (lit '':scheme'', lit ''https''),
                         (lit '':authority'', lit ''example.com:8443''),
                         (lit '':path'', map Some ''/a/b'' @ None # map Some ''x=1'')]
         @ [Nghttp2_submit_request
              [(lit '':method'', lit ''GET''), (lit '':scheme'', lit ''https''),
               (lit '':authority'', lit ''example.com:8443''),
               (lit '':path'', map Some ''/a/b'' @ None # map Some ''x=1'')] 4096]\<rparr>"
    unfolding w5_def
    by (rule connected_setup [OF opened_started_B sdB])
       (simp_all add: uri_range_def nv_value_def uri_B_def url_B_def f_off_def f_len_def
          c_string_def lit_def)
  have run: "status started_B = Running" and bv: "bev started_B = Some \<lparr>bev_ssl = True\<rparr>"
    by (simp_all add: started_B_eq)
  have "connected_B = session_send
          [Cb_before_frame_send (request_frame 1) (Some 4096), Cb_send ''frames''] w5"
    using run bv
    by (simp add: connected_B_def event_base_loop_def deliver_def eventcb_def Let_def w5_def
        BEV_EVENT_CONNECTED_def)
  also have "\<dots> = fold invoke [Cb_before_frame_send (request_frame 1) (Some 4096), Cb_send ''frames'']
      (w5\<lparr>trace := trace w5 @ [Nghttp2_session_send]\<rparr>)"
    by (rule session_send_live [where cs = callbacks5]) (simp_all add: w5 run)
  finally show ?thesis
    by (simp add: w5 sdB run bv before_frame_send_callback_def send_callback_def request_frame_def
        emit_Running)
qed

lemma active_connected_B: "active connected_B"
  by (simp add: connected_B_eq active_def opened_def started_B_eq)

lemma captured_connected_B: "captured_id connected_B = Some 1"
  by (simp add: connected_B_eq captured_id_def)

lemma untouched_connected_B: "untouched connected_B"
  by (simp add: connected_B_eq untouched_def started_B_eq header_lines_def)

lemma engine_exchange_B: "engine_exchange 4096 1 exchange_B"
  by (simp add: engine_exchange_def exchange_B_def request_frame_def response_frame_def
      upt_rec [of 0] upt_rec [of 1] upt_rec [of 2] upt_rec [of 3] upt_rec [of 4])

section \<open>The close of the stream\<close>




section \<open>Teardown\<close>

text \<open>
  Every step of every handler either stays outside the release function or is its one
  execution on an open context.
\<close>

subsection \<open>How each piece extends the trace\<close>

lemma grows_session_send:
  assumes "\<And>a. callback_action a \<Longrightarrow> Q a" and "Q Nghttp2_session_send"
  shows "grows Q w (session_send cbs w)"
proof -
  have 1: "grows Q w (emit Nghttp2_session_send w)"
    using assms(2) by (rule grows_emit)
  have 2: "grows Q (emit Nghttp2_session_send w) (fold invoke cbs (emit Nghttp2_session_send w))"
    using assms(1) by (rule grows_fold_invoke)
  have 3: "grows Q (emit Nghttp2_session_send w) (crash Null_pointer (emit Nghttp2_session_send w))"
    by simp
  show ?thesis
    unfolding session_send_def Let_def
    by (cases "session w") (simp_all add: grows_trans [OF 1 2] grows_trans [OF 1 3])
qed

lemma grows_delete_stream_data:
  assumes "\<And>a. is_teardown_call a \<Longrightarrow> Q a"
  shows "grows Q w (delete_http2_stream_data w)"
  unfolding delete_http2_stream_data_def
  by (intro grows_trans [OF grows_emit grows_trans [OF grows_emit grows_emit]] assms)
     (simp_all add: is_teardown_call_def teardown_calls_def releases_def)

lemma grows_delete:
  assumes "\<And>a. is_teardown_call a \<Longrightarrow> Q a"
  shows "grows Q w (delete_http2_session_data w)"
proof -
  define w0 where "w0 = emit Bufferevent_openssl_get_ssl w"
  have rel: "Q Bufferevent_openssl_get_ssl" "Q SSL_shutdown" "Q Bufferevent_free"
    "Q Evdns_base_free" "Q Nghttp2_session_del"
    by (rule assms, simp add: is_teardown_call_def teardown_calls_def releases_def)+
  have 0: "grows Q w w0"
    unfolding w0_def using rel(1) by (rule grows_emit)
  show ?thesis
  proof (cases "bev w0")
    case None
    have "delete_http2_session_data w = crash Null_pointer w0"
      unfolding delete_http2_session_data_def Let_def w0_def [symmetric] None option.case
      by (rule refl)
    with 0 show ?thesis by (simp add: grows_trans [OF _ grows_crash])
  next
    case (Some b)
    define w1 where "w1 = (if bev_ssl b then emit SSL_shutdown w0 else w0)"
    define w2 where "w2 = upd (\<lambda>w. w\<lparr>bev := None\<rparr>) (emit Bufferevent_free w1)"
    define w3 where "w3 = (case dnsbase w2 of
                         None \<Rightarrow> crash Null_pointer w2
                       | Some _ \<Rightarrow> upd (\<lambda>w. w\<lparr>dnsbase := None\<rparr>) (emit Evdns_base_free w2))"
    define w4 where "w4 = upd (\<lambda>w. w\<lparr>session := None\<rparr>) (emit Nghttp2_session_del w3)"
    define w5 where "w5 = (case stream_data w4 of
                  None \<Rightarrow> w4
                | Some _ \<Rightarrow> upd (\<lambda>w. w\<lparr>stream_data := None\<rparr>) (delete_http2_stream_data w4))"
    have 1: "grows Q w0 w1"
      unfolding w1_def using rel(2) by (simp add: grows_emit)
    have 2: "grows Q w1 w2"
      unfolding w2_def by (rule grows_trans [OF grows_emit grows_upd]) (simp_all add: rel)
    have 3: "grows Q w2 w3"
      unfolding w3_def
      by (cases "dnsbase w2")
         (simp_all add: grows_trans [OF grows_emit grows_upd] rel)
    have 4: "grows Q w3 w4"
      unfolding w4_def by (rule grows_trans [OF grows_emit grows_upd]) (simp_all add: rel)
    have 5: "grows Q w4 w5"
      unfolding w5_def
      by (cases "stream_data w4")
         (simp_all add: grows_trans [OF grows_delete_stream_data grows_upd] assms)
    have "delete_http2_session_data w = w5"
      unfolding delete_http2_session_data_def Let_def w5_def w4_def w3_def w2_def w1_def
        w0_def [symmetric] Some option.case
      by (rule refl)
    moreover have "grows Q w w5"
      by (rule grows_trans [OF grows_trans [OF grows_trans [OF grows_trans
            [OF grows_trans [OF 0 1] 2] 3] 4] 5])
    ultimately show ?thesis by simp
  qed
qed

lemma grows_print_header:
  assumes "\<And>d. Q (Stderr d)"
  shows "grows Q w (print_header x w)"
proof -
  obtain name v where x: "x = (name, v)" by (cases x)
  have 1: "grows Q w (emit (Stderr (lit '': '')) (emit (Stderr name) w))"
    by (intro grows_trans [OF grows_emit grows_emit] assms)
  show ?thesis
  proof (cases v)
    case (Inl f)
    with x 1 show ?thesis
      by (simp add: Let_def) (rule grows_trans [OF _ grows_crash])
  next
    case (Inr d)
    have "grows Q (emit (Stderr (lit '': '')) (emit (Stderr name) w))
      (emit (Stderr (lit nl)) (emit (Stderr d) (emit (Stderr (lit '': '')) (emit (Stderr name) w))))"
      by (intro grows_trans [OF grows_emit grows_emit] assms)
    with x 1 Inr show ?thesis
      by (simp add: Let_def) (rule grows_trans)
  qed
qed

lemma grows_print_headers:
  assumes "\<And>d. Q (Stderr d)"
  shows "grows Q w (print_headers nva w)"
proof -
  have "grows Q w (fold print_header nva w)"
  proof (induction nva arbitrary: w)
    case Nil
    show ?case by simp
  next
    case (Cons x nva)
    have "grows Q w (print_header x w)" using assms by (rule grows_print_header)
    moreover have "grows Q (print_header x w) (fold print_header nva (print_header x w))"
      by (rule Cons)
    ultimately show ?case by (simp del: print_header.simps) (rule grows_trans)
  qed
  then show ?thesis
    unfolding print_headers_def by (rule grows_trans [OF _ grows_emit]) (rule assms)
qed

lemma grows_submit_request:
  assumes "\<And>d. Q (Stderr d)" and "\<And>h a. Q (Nghttp2_submit_request h a)"
  shows "grows Q w (submit_request w)"
proof (cases "stream_data w")
  case None
  then show ?thesis by (simp add: submit_request_def)
next
  case (Some p)
  obtain a sd where p: "p = (a, sd)" by (cases p)
  define w1 where "w1 = print_headers (request_headers sd)
      (emit (Stderr (lit (''Request headers:'' @ nl))) w)"
  have 1: "grows Q w w1"
    unfolding w1_def by (intro grows_trans [OF grows_emit grows_print_headers] assms)
  have "grows Q w1 (emit (Nghttp2_submit_request (nva_bytes (request_headers sd)) a) w1)"
    by (intro grows_emit assms)
  with 1 have 2: "grows Q w (emit (Nghttp2_submit_request (nva_bytes (request_headers sd)) a) w1)"
    by (rule grows_trans)
  from 1 have 3: "grows Q w (crash Null_pointer w1)"
    by (rule grows_trans) simp
  have eq: "submit_request w = (case session w1 of
      None \<Rightarrow> crash Null_pointer w1
    | Some _ \<Rightarrow> emit (Nghttp2_submit_request (nva_bytes (request_headers sd)) a) w1)"
    unfolding submit_request_def w1_def Let_def Some p option.case prod.case by (rule refl)
  from 2 3 show ?thesis
    unfolding eq by (cases "session w1") simp_all
qed

lemma grows_initialize:
  assumes "\<And>c. Q (Nghttp2_session_client_new c)"
  shows "grows Q w (initialize_nghttp2_session w)"
  unfolding initialize_nghttp2_session_def Let_def
  by (rule grows_trans [OF grows_emit grows_upd]) (simp_all add: assms)

lemma grows_connection_header:
  assumes "Q Bufferevent_write_CLIENT_CONNECTION_HEADER" and "\<And>iv. Q (Nghttp2_submit_settings iv)"
  shows "grows Q w (send_client_connection_header w)"
proof -
  define w1 where "w1 = (case bev w of
                  None \<Rightarrow> crash Null_pointer w
                | Some _ \<Rightarrow> emit Bufferevent_write_CLIENT_CONNECTION_HEADER w)"
  have 1: "grows Q w w1"
    unfolding w1_def by (cases "bev w") (simp_all add: grows_emit assms)
  have "grows Q w1 (case session w1 of
           None \<Rightarrow> crash Null_pointer w1
         | Some _ \<Rightarrow> emit (Nghttp2_submit_settings [(NGHTTP2_SETTINGS_MAX_CONCURRENT_STREAMS, 100)]) w1)"
    by (cases "session w1") (simp_all add: grows_emit assms)
  with 1 show ?thesis
    unfolding send_client_connection_header_def Let_def w1_def [symmetric]
    by (rule grows_trans)
qed

subsection \<open>Steps outside the release function\<close>

lemma quiet_refl [simp]: "quiet w w"
  by (simp add: quiet_def)

lemma quiet_trans: "quiet w w' \<Longrightarrow> quiet w' w'' \<Longrightarrow> quiet w w''"
  unfolding quiet_def by (blast intro: keeps_trans grows_trans)

lemma quiet_emit: "\<not> is_teardown_call a \<Longrightarrow> quiet w (emit a w)"
  by (simp add: quiet_def grows_emit)

lemma quiet_crash [simp]: "quiet w (crash f w)"
  by (simp add: quiet_def)

lemma quiet_errx [simp]: "quiet w (errx m w)"
  by (simp add: quiet_def grows_errx)

lemma quiet_fold_invoke: "quiet w (fold invoke cbs w)"
  using cb_step_fold_invoke [of w cbs]
  by (simp add: quiet_def cb_step_def grows_fold_invoke callback_not_release)

lemma quiet_set_session: "quiet w (upd (\<lambda>w. w\<lparr>session := x\<rparr>) w)"
  by (cases "status w = Running") (simp_all add: quiet_def keeps_def grows_same_trace)

lemma quiet_session_send: "quiet w (session_send cbs w)"
proof -
  have "quiet w (emit Nghttp2_session_send w)" by (simp add: quiet_emit)
  moreover have "quiet (emit Nghttp2_session_send w) (fold invoke cbs (emit Nghttp2_session_send w))"
    by (rule quiet_fold_invoke)
  moreover have "quiet (emit Nghttp2_session_send w) (crash Null_pointer (emit Nghttp2_session_send w))"
    by simp
  ultimately show ?thesis
    unfolding session_send_def Let_def
    by (cases "session w") (auto intro: quiet_trans)
qed

lemma keeps_print_header: "keeps w (print_header x w)"
proof -
  obtain name v where x: "x = (name, v)" by (cases x)
  show ?thesis unfolding x by (cases v) (simp_all add: keeps_def Let_def)
qed

lemma keeps_fold_print_header: "keeps w (fold print_header nva w)"
proof (induction nva arbitrary: w)
  case Nil
  show ?case by simp
next
  case (Cons x nva)
  from keeps_print_header [of w x] Cons [of "print_header x w"] show ?case
    by (simp del: print_header.simps) (rule keeps_trans)
qed

lemma quiet_print_headers: "quiet w (print_headers nva w)"
  unfolding quiet_def
proof
  show "keeps w (print_headers nva w)"
    unfolding print_headers_def
    by (rule keeps_trans [OF keeps_fold_print_header keeps_emit])
  show "grows (\<lambda>a. \<not> is_teardown_call a) w (print_headers nva w)"
    by (rule grows_print_headers) simp
qed

lemma quiet_submit_request: "quiet w (submit_request w)"
proof (cases "stream_data w")
  case None
  then show ?thesis by (simp add: submit_request_def)
next
  case (Some p)
  obtain a sd where p: "p = (a, sd)" by (cases p)
  define w1 where "w1 = print_headers (request_headers sd)
      (emit (Stderr (lit (''Request headers:'' @ nl))) w)"
  have 1: "quiet w w1"
    unfolding w1_def by (rule quiet_trans [OF quiet_emit quiet_print_headers]) simp
  have eq: "submit_request w = (case session w1 of
      None \<Rightarrow> crash Null_pointer w1
    | Some _ \<Rightarrow> emit (Nghttp2_submit_request (nva_bytes (request_headers sd)) a) w1)"
    unfolding submit_request_def w1_def Let_def Some p option.case prod.case by (rule refl)
  show ?thesis
    unfolding eq
    by (cases "session w1")
       (auto intro!: quiet_trans [OF 1] quiet_emit)
qed

lemma quiet_initialize: "quiet w (initialize_nghttp2_session w)"
  unfolding initialize_nghttp2_session_def Let_def
  by (rule quiet_trans [OF quiet_emit quiet_set_session]) simp

lemma quiet_connection_header: "quiet w (send_client_connection_header w)"
proof -
  define w1 where "w1 = (case bev w of
                  None \<Rightarrow> crash Null_pointer w
                | Some _ \<Rightarrow> emit Bufferevent_write_CLIENT_CONNECTION_HEADER w)"
  have 1: "quiet w w1"
    unfolding w1_def by (cases "bev w") (simp_all add: quiet_emit)
  have "quiet w1 (case session w1 of
           None \<Rightarrow> crash Null_pointer w1
         | Some _ \<Rightarrow> emit (Nghttp2_submit_settings [(NGHTTP2_SETTINGS_MAX_CONCURRENT_STREAMS, 100)]) w1)"
    by (cases "session w1") (simp_all add: quiet_emit)
  with 1 show ?thesis
    unfolding send_client_connection_header_def Let_def w1_def [symmetric]
    by (rule quiet_trans)
qed

lemma untouched_quiet: "quiet w w' \<Longrightarrow> untouched w' = untouched w"
  by (auto simp: quiet_def untouched_def dest: grows_filter)

subsection \<open>Released once or not at all\<close>

lemma settled_quiet:
  assumes "settled w" and "quiet w w'"
  shows "settled w'"
proof -
  from assms(2) have k: "keeps w w'" and f: "filter is_teardown_call (trace w') = filter is_teardown_call (trace w)"
    by (auto simp: quiet_def intro: grows_filter)
  show ?thesis
  proof (cases "opened w \<and> untouched w")
    case True
    with k f show ?thesis
      by (cases "status w' = Running")
         (auto simp: settled_def untouched_def dest: keeps_opened)
  next
    case False
    with assms(1) k f show ?thesis
      by (auto simp: settled_def untouched_def keeps_def)
  qed
qed

lemma torn_down_delete:
  assumes "opened w" and "untouched w"
  shows "torn_down (delete_http2_session_data w)"
  using assms
  by (simp add: delete_opened torn_down_def untouched_def is_teardown_call_def)

lemma settled_torn_down: "torn_down w \<Longrightarrow> settled w"
  by (simp add: settled_def torn_down_def)

lemma steady_settled: "steady w \<Longrightarrow> settled w"
  by (auto simp: steady_def settled_def)

lemma steady_quiet:
  assumes "steady w" and "quiet w w'"
  shows "steady w'"
proof -
  from assms(2) have k: "keeps w w'" and u: "untouched w' = untouched w"
    by (simp_all add: quiet_def untouched_quiet [OF assms(2)])
  show ?thesis
  proof (cases "status w' = Running")
    case True
    with assms(1) k have "opened w"
      by (auto simp: steady_def keeps_def)
    with k True have "opened w'" by (auto dest: keeps_opened)
    with assms(1) u show ?thesis by (auto simp: steady_def)
  next
    case False
    with assms(1) u show ?thesis by (auto simp: steady_def)
  qed
qed

text \<open>
  The release function is only ever reached in a steady world: on an open context it tears
  it down, in a stopped process it does nothing.
\<close>

lemma settled_delete:
  assumes "steady w"
  shows "settled (delete_http2_session_data w)"
proof (cases "opened w \<and> untouched w")
  case True
  then show ?thesis by (intro settled_torn_down torn_down_delete) simp_all
next
  case False
  with assms have "status w \<noteq> Running" by (auto simp: steady_def)
  with assms show ?thesis by (simp add: stopped_delete steady_settled)
qed

text \<open>
  Entered on a closed context the release function is not a no-op: the look-up of the SSL
  object is made on the NULL bufferevent and the process faults.
\<close>

lemma delete_closed:
  assumes "status w = Running" and "bev w = None"
  shows "delete_http2_session_data w =
           w\<lparr>trace := trace w @ [Bufferevent_openssl_get_ssl], status := Crashed Null_pointer\<rparr>"
  using assms
  by (simp add: delete_http2_session_data_def Let_def emit_Running crash_def)

lemmas steady_steps =
  steady_quiet [OF _ quiet_emit] steady_quiet [OF _ quiet_crash] steady_quiet [OF _ quiet_errx]
  steady_quiet [OF _ quiet_fold_invoke]

lemmas settled_steps =
  settled_quiet [OF _ quiet_emit] settled_quiet [OF _ quiet_crash] settled_quiet [OF _ quiet_errx]
  settled_quiet [OF _ quiet_fold_invoke] settled_quiet [OF _ quiet_session_send]
  settled_quiet [OF _ quiet_submit_request] settled_quiet [OF _ quiet_initialize]
  settled_quiet [OF _ quiet_connection_header] settled_delete

lemma settled_readcb:
  assumes "steady w"
  shows "settled (readcb data rv cbs_recv cbs_send w)"
proof -
  from assms have "settled w" by (rule steady_settled)
  with assms show ?thesis
    unfolding readcb_def Let_def
    by (cases "session (emit (Nghttp2_session_mem_recv data) w)")
       (auto intro!: settled_steps steady_steps)
qed

lemma settled_writecb:
  assumes "steady w"
  shows "settled (writecb wr ww n w)"
proof -
  from assms have "settled w" by (rule steady_settled)
  with assms show ?thesis
    unfolding writecb_def
    by (cases "session w"; cases "bev w") (auto intro!: settled_steps)
qed

lemma settled_eventcb:
  assumes "steady w"
  shows "settled (eventcb events cbs w)"
proof -
  from assms have "settled w" by (rule steady_settled)
  with assms show ?thesis
    unfolding eventcb_def Let_def
    by (auto intro!: settled_steps steady_steps)
qed

lemma settled_select: "settled w \<Longrightarrow> settled (select_next_proto_cb r w)"
  unfolding select_next_proto_cb_def by (auto intro!: settled_steps)

lemma settled_deliver:
  assumes "settled w"
  shows "settled (deliver e w)"
proof (cases "status w = Running \<and> bev w \<noteq> None")
  case False
  then have "deliver e w = w" by (auto simp: deliver_def)
  with assms show ?thesis by simp
next
  case True
  with assms have st: "steady w" by (auto simp: settled_def steady_def)
  from True show ?thesis
    by (cases e)
       (simp_all add: deliver_def settled_readcb [OF st] settled_writecb [OF st]
          settled_eventcb [OF st] settled_select [OF assms])
qed

lemma settled_loop: "settled w \<Longrightarrow> settled (event_base_loop evs w)"
  unfolding event_base_loop_def
  by (induction evs arbitrary: w) (simp_all add: settled_deliver)

lemma settled_start: "settled (start a str parsed connect_rv)"
proof (cases parsed)
  case None
  then show ?thesis
    by (simp add: start_def settled_def untouched_def create_http2_session_data_def)
next
  case (Some pu)
  show ?thesis
  proof (cases "create_http2_stream_data str pu")
    case (Inl f)
    with Some show ?thesis
      by (simp add: start_def Let_def settled_def untouched_def create_http2_session_data_def
          initiate_connection_def)
  next
    case (Inr sd)
    with Some show ?thesis
      by (simp add: start_def Let_def settled_def untouched_def create_http2_session_data_def
          initiate_connection_def opened_def)
  qed
qed

lemma settled_run: "settled (run a str parsed connect_rv evs)"
proof -
  have "settled (event_base_loop evs (start a str parsed connect_rv))"
    by (intro settled_loop settled_start)
  moreover have "quiet w (upd (\<lambda>w. w\<lparr>status := Exited 0\<rparr>) w)" for w
    by (cases "status w = Running") (simp_all add: quiet_def keeps_def grows_same_trace)
  ultimately show ?thesis
    unfolding run_def by (rule settled_quiet)
qed

lemma run_stopped: "status (run a str parsed connect_rv evs) \<noteq> Running"
  by (simp add: run_def upd_def)

lemma torn_down_eventcb:
  assumes "opened w" and "untouched w" and "events AND BEV_EVENT_CONNECTED = 0"
  shows "torn_down (eventcb events cbs w)"
proof -
  define w1 where "w1 = (if events AND BEV_EVENT_EOF \<noteq> 0
                      then emit (Warnx [Lit ''Disconnected from the remote host'']) w
                      else if events AND BEV_EVENT_ERROR \<noteq> 0
                      then emit (Warnx [Lit ''Network error'']) w
                      else if events AND BEV_EVENT_TIMEOUT \<noteq> 0
                      then emit (Warnx [Lit ''Timeout'']) w
                      else w)"
  have "quiet w w1" unfolding w1_def by (simp add: quiet_emit)
  with assms(2) have u: "untouched w1" by (simp add: untouched_quiet)
  from assms(1) have o: "opened w1" unfolding w1_def by simp
  have "eventcb events cbs w = delete_http2_session_data w1"
    using assms(3) unfolding eventcb_def Let_def w1_def by simp
  with o u show ?thesis by (simp add: torn_down_delete)
qed

lemma torn_down_readcb:
  assumes "active w" and "untouched w" and "sint rv < 0"
  shows "torn_down (readcb data rv cbs_recv cbs_send w)"
proof -
  define w2 where "w2 = fold invoke cbs_recv (emit (Nghttp2_session_mem_recv data) w)"
  have "quiet w w2"
    unfolding w2_def by (rule quiet_trans [OF quiet_emit quiet_fold_invoke]) simp
  with assms(2) have "untouched w2" by (simp add: untouched_quiet)
  then show ?thesis
    unfolding readcb_fatal [OF assms(1,3)] w2_def [symmetric]
    by (simp add: torn_down_def untouched_def) (simp add: is_teardown_call_def teardown_calls_def releases_def)
qed

lemma torn_down_writecb:
  assumes "active w" and "untouched w"
  shows "torn_down (writecb 0 0 0 w)"
proof -
  from assms(1) have "writecb 0 0 0 w = delete_http2_session_data w"
    by (auto simp: writecb_def active_def opened_def)
  with assms show ?thesis by (simp add: torn_down_delete active_def)
qed

lemma torn_down_terminal:
  assumes "active w" and "untouched w" and "terminal e"
  shows "torn_down (deliver e w)"
proof -
  from assms(1) have d: "status w = Running \<and> bev w \<noteq> None" and o: "opened w"
    by (auto simp: active_def opened_def)
  show ?thesis
  proof (cases e)
    case (Ssl_select_next_proto r)
    with assms(3) show ?thesis by simp
  next
    case (Bev_read data rv c1 c2)
    with assms d show ?thesis by (simp add: deliver_def torn_down_readcb)
  next
    case (Bev_write wr ww n)
    with assms d show ?thesis by (simp add: deliver_def torn_down_writecb)
  next
    case (Bev_event events cbs)
    with assms d o show ?thesis by (simp add: deliver_def torn_down_eventcb)
  qed
qed

text \<open>The status of the process after a terminal event.\<close>

lemma status_eventcb_closing:
  assumes "opened w" and "events AND BEV_EVENT_CONNECTED = 0"
  shows "status (eventcb events cbs w) = Running"
proof -
  define w1 where "w1 = (if events AND BEV_EVENT_EOF \<noteq> 0
                      then emit (Warnx [Lit ''Disconnected from the remote host'']) w
                      else if events AND BEV_EVENT_ERROR \<noteq> 0
                      then emit (Warnx [Lit ''Network error'']) w
                      else if events AND BEV_EVENT_TIMEOUT \<noteq> 0
                      then emit (Warnx [Lit ''Timeout'']) w
                      else w)"
  from assms(1) have o: "opened w1" unfolding w1_def by simp
  have "eventcb events cbs w = delete_http2_session_data w1"
    using assms(2) unfolding eventcb_def Let_def w1_def by simp
  with o show ?thesis by (simp add: delete_opened) (simp add: opened_def)
qed

lemma status_writecb_closing:
  assumes "active w"
  shows "status (writecb 0 0 0 w) = Running"
proof -
  from assms have "writecb 0 0 0 w = delete_http2_session_data w"
    by (auto simp: writecb_def active_def opened_def)
  with assms show ?thesis by (simp add: delete_opened active_def) (simp add: opened_def)
qed

lemma status_terminal:
  assumes "active w" and "terminal e"
  shows "status (deliver e w) =
           (case e of Bev_read data rv cbs_recv cbs_send \<Rightarrow> Crashed Null_pointer | _ \<Rightarrow> Running)"
proof -
  from assms(1) have d: "status w = Running \<and> bev w \<noteq> None" and o: "opened w"
    by (auto simp: active_def opened_def)
  show ?thesis
  proof (cases e)
    case (Ssl_select_next_proto r)
    with assms(2) show ?thesis by simp
  next
    case (Bev_read data rv c1 c2)
    with assms d show ?thesis by (simp add: deliver_def readcb_fatal)
  next
    case (Bev_write wr ww n)
    with assms d show ?thesis by (simp add: deliver_def status_writecb_closing)
  next
    case (Bev_event events cbs)
    with assms d o show ?thesis by (simp add: deliver_def status_eventcb_closing)
  qed
qed

text \<open>
  Claim C3. One execution of \<open>delete_http2_session_data\<close> on an open context looks up the
  SSL object and then makes the release calls SSL shutdown, bufferevent, resolver, session
  and stream data, in this order (\<open>teardown_calls\<close>). In every run of the program the
  function is entered not at all or exactly once, and then runs to its end. Every terminal
  event delivered to an active context on which the function was never entered tears the
  context down; the process keeps running, except after a fatal read, where the flush that
  follows the teardown faults on the NULL session; and the event loop does nothing with
  whatever comes afterwards, so the function is not entered again. An event other than
  connected does the same on a context that has no session yet. A second execution of the
  function would not be a no-op: on a closed context it faults at the look-up of the SSL
  object.
\<close>

theorem teardown_once_in_order:
  "(filter is_teardown_call (trace (run a str parsed connect_rv evs)) = []
      \<or> filter is_teardown_call (trace (run a str parsed connect_rv evs)) = teardown_calls)
   \<and> (active w \<and> untouched w \<and> terminal e \<longrightarrow>
        torn_down (deliver e w)
        \<and> status (deliver e w) =
            (case e of Bev_read data rv cbs_recv cbs_send \<Rightarrow> Crashed Null_pointer | _ \<Rightarrow> Running)
        \<and> event_base_loop (e # evs) w = deliver e w)
   \<and> (opened w \<and> untouched w \<and> events AND BEV_EVENT_CONNECTED = 0 \<longrightarrow>
        torn_down (deliver (Bev_event events cbs) w)
        \<and> status (deliver (Bev_event events cbs) w) = Running
        \<and> event_base_loop (Bev_event events cbs # evs) w = deliver (Bev_event events cbs) w)
   \<and> (status w = Running \<and> bev w = None \<longrightarrow>
        delete_http2_session_data w =
          w\<lparr>trace := trace w @ [Bufferevent_openssl_get_ssl], status := Crashed Null_pointer\<rparr>)"
proof -
  have 1: "filter is_teardown_call (trace (run a str parsed connect_rv evs)) = []
      \<or> filter is_teardown_call (trace (run a str parsed connect_rv evs)) = teardown_calls"
    using settled_run [of a str parsed connect_rv evs] run_stopped [of a str parsed connect_rv evs]
    by (auto simp: settled_def opened_def untouched_def)
  have 2: "torn_down (deliver e w)
        \<and> status (deliver e w) =
            (case e of Bev_read data rv cbs_recv cbs_send \<Rightarrow> Crashed Null_pointer | _ \<Rightarrow> Running)
        \<and> event_base_loop (e # evs) w = deliver e w"
    if "active w" "untouched w" "terminal e"
  proof -
    from that have t: "torn_down (deliver e w)" by (rule torn_down_terminal)
    then have "event_base_loop (e # evs) w = deliver e w"
      by (simp add: loop_Cons closed_loop torn_down_def)
    with t status_terminal [OF that(1,3)] show ?thesis by simp
  qed
  have 3: "torn_down (deliver (Bev_event events cbs) w)
        \<and> status (deliver (Bev_event events cbs) w) = Running
        \<and> event_base_loop (Bev_event events cbs # evs) w = deliver (Bev_event events cbs) w"
    if "opened w" "untouched w" "events AND BEV_EVENT_CONNECTED = 0"
  proof -
    from that have d: "deliver (Bev_event events cbs) w = eventcb events cbs w"
      by (simp add: deliver_def opened_def)
    from that have t: "torn_down (eventcb events cbs w)" by (rule torn_down_eventcb)
    then have "event_base_loop (Bev_event events cbs # evs) w = eventcb events cbs w"
      by (simp add: loop_Cons closed_loop torn_down_def d)
    with t status_eventcb_closing [OF that(1,3)] d show ?thesis by simp
  qed
  have 4: "delete_http2_session_data w =
          w\<lparr>trace := trace w @ [Bufferevent_openssl_get_ssl], status := Crashed Null_pointer\<rparr>"
    if "status w = Running" "bev w = None"
    using that by (rule delete_closed)
  from 1 2 3 4 show ?thesis by blast
qed

section \<open>Failure of the protocol selection\<close>

text \<open>Only the connected event submits a request.\<close>

lemma not_submit_release: "is_teardown_call a \<Longrightarrow> \<not> is_submit_request a"
  by (cases a) (simp_all add: is_teardown_call_def teardown_calls_def releases_def)

lemma not_submit_callback: "callback_action a \<Longrightarrow> \<not> is_submit_request a"
  by (cases a) simp_all

lemma grows_readcb:
  "grows (\<lambda>a. \<not> is_submit_request a) w (readcb data rv cbs_recv cbs_send w)"
proof -
  let ?Q = "\<lambda>a. \<not> is_submit_request a"
  define w1 where "w1 = emit (Nghttp2_session_mem_recv data) w"
  define w2 where "w2 = (case session w1 of
                  None \<Rightarrow> crash Null_pointer w1
                | Some _ \<Rightarrow> fold invoke cbs_recv w1)"
  define w3 where "w3 = (if sint rv < 0
                then delete_http2_session_data (emit (Warnx [Lit ''Fatal error: '', Strerror rv]) w2)
                else emit (Evbuffer_drain (unat rv)) w2)"
  have 1: "grows ?Q w w1" unfolding w1_def by (rule grows_emit) simp
  have 2: "grows ?Q w1 w2"
    unfolding w2_def by (cases "session w1") (simp_all add: grows_fold_invoke not_submit_callback)
  have 3: "grows ?Q w2 w3"
    unfolding w3_def
    by (auto intro!: grows_trans [OF grows_emit grows_delete] grows_emit simp: not_submit_release)
  have 4: "grows ?Q w3 (session_send cbs_send w3)"
    by (rule grows_session_send) (simp_all add: not_submit_callback)
  have "readcb data rv cbs_recv cbs_send w = session_send cbs_send w3"
    unfolding readcb_def Let_def w3_def w2_def w1_def by (rule refl)
  with grows_trans [OF grows_trans [OF grows_trans [OF 1 2] 3] 4] show ?thesis by simp
qed

lemma grows_deliver_not_connected:
  assumes "\<not> connected_event e"
  shows "grows (\<lambda>a. \<not> is_submit_request a) w (deliver e w)"
proof (cases "status w = Running \<and> bev w \<noteq> None")
  case False
  then have "deliver e w = w" by (auto simp: deliver_def)
  then show ?thesis by simp
next
  case True
  show ?thesis
  proof (cases e)
    case (Ssl_select_next_proto r)
    with True show ?thesis
      by (simp add: deliver_def select_next_proto_cb_def grows_errx)
  next
    case (Bev_read data rv c1 c2)
    with True show ?thesis by (simp add: deliver_def grows_readcb)
  next
    case (Bev_write wr ww n)
    with True show ?thesis
      by (cases "session w")
         (auto simp: deliver_def writecb_def grows_delete not_submit_release)
  next
    case (Bev_event events cbs)
    with assms have nc: "events AND BEV_EVENT_CONNECTED = 0" by simp
    have "grows (\<lambda>a. \<not> is_submit_request a) w (eventcb events cbs w)"
      using nc unfolding eventcb_def Let_def
      by (auto intro!: grows_delete grows_trans [OF grows_emit grows_delete]
            simp: not_submit_release)
    with True Bev_event show ?thesis by (simp add: deliver_def)
  qed
qed

lemma no_request_loop:
  assumes "\<forall>e\<in>set evs. \<not> connected_event e"
  shows "filter is_submit_request (trace (event_base_loop evs w)) = filter is_submit_request (trace w)"
  using assms
proof (induction evs arbitrary: w)
  case Nil
  show ?case by (simp add: event_base_loop_def)
next
  case (Cons e evs)
  from Cons.prems have "grows (\<lambda>a. \<not> is_submit_request a) w (deliver e w)"
    by (intro grows_deliver_not_connected) simp
  then have "filter is_submit_request (trace (deliver e w)) = filter is_submit_request (trace w)"
    by (rule grows_filter) simp
  with Cons.IH [of "deliver e w"] Cons.prems show ?case
    by (simp add: loop_Cons)
qed

lemma no_request_start: "filter is_submit_request (trace (start a str parsed connect_rv)) = []"
proof (cases parsed)
  case None
  then show ?thesis by (simp add: start_def create_http2_session_data_def)
next
  case (Some pu)
  then show ?thesis
    by (cases "create_http2_stream_data str pu")
       (simp_all add: start_def Let_def create_http2_session_data_def initiate_connection_def)
qed

text \<open>
  When the protocol selection callback is invoked during the handshake (no connected event
  has been delivered yet) and \<open>nghttp2_select_next_protocol\<close> returns a value that is not
  positive, the run ends with exit status 1, the last thing it does is the diagnostic of
  \<open>errx\<close>, and no request is submitted, whatever events would follow.
\<close>

lemma selection_failure_in_callback_aborts:
  assumes "sint r \<le> 0"
    and "\<forall>e\<in>set pre. \<not> connected_event e"
    and "status (event_base_loop pre (start a str parsed connect_rv)) = Running"
    and "bev (event_base_loop pre (start a str parsed connect_rv)) \<noteq> None"
  shows "status (run a str parsed connect_rv (pre @ Ssl_select_next_proto r # post)) = Exited 1
       \<and> trace (run a str parsed connect_rv (pre @ Ssl_select_next_proto r # post)) =
           trace (event_base_loop pre (start a str parsed connect_rv))
           @ [Errx [Lit ''Server did not advertise '', PROTO_VERSION_ID]]
       \<and> filter is_submit_request
           (trace (run a str parsed connect_rv (pre @ Ssl_select_next_proto r # post))) = []"
proof -
  define w where "w = event_base_loop pre (start a str parsed connect_rv)"
  define w' where "w' = deliver (Ssl_select_next_proto r) w"
  from assms(1,3,4) have w': "w' = errx [Lit ''Server did not advertise '', PROTO_VERSION_ID] w"
    by (simp add: w'_def w_def deliver_def select_next_proto_cb_def)
  from assms(3) have st: "status w' = Exited 1"
    and tr: "trace w' = trace w @ [Errx [Lit ''Server did not advertise '', PROTO_VERSION_ID]]"
    by (simp_all add: w' w_def)
  have "run a str parsed connect_rv (pre @ Ssl_select_next_proto r # post) = w'"
    using st by (simp add: run_def loop_append loop_Cons stopped_loop flip: w_def w'_def)
  moreover have "filter is_submit_request (trace w) = []"
    unfolding w_def using no_request_loop [OF assms(2)] no_request_start by simp
  ultimately show ?thesis using st tr by (simp add: w_def)
qed

text \<open>
  Claim C7. The check is made only inside the callback, which the security layer invokes
  when the server has sent its list of protocols. A handshake in which the server sends no
  list completes without the callback, and the handler of the connected event does not ask
  which protocol was selected. In this run of scenario B no selection callback is
  delivered before the connected event: the run ends with exit status 0, without any
  diagnostic of \<open>errx\<close>, after the request has been submitted and its frames written to the
  transport.
\<close>

theorem connected_without_selection_submits_request:
  "status (run 4096 uri_B (Some url_B) 0
      [Bev_event BEV_EVENT_CONNECTED
         [Cb_before_frame_send (request_frame 1) (Some 4096), Cb_send ''frames'']]) = Exited 0
   \<and> filter is_errx (trace (run 4096 uri_B (Some url_B) 0
      [Bev_event BEV_EVENT_CONNECTED
         [Cb_before_frame_send (request_frame 1) (Some 4096), Cb_send ''frames'']])) = []
   \<and> filter is_submit_request (trace (run 4096 uri_B (Some url_B) 0
      [Bev_event BEV_EVENT_CONNECTED
         [Cb_before_frame_send (request_frame 1) (Some 4096), Cb_send ''frames'']])) =
       [Nghttp2_submit_request
          [(lit '':method'', lit ''GET''), (lit '':scheme'', lit ''https''),
           (lit '':authority'', lit ''example.com:8443''),
           (lit '':path'', map Some ''/a/b'' @ None # map Some ''x=1'')] 4096]
   \<and> last (trace (run 4096 uri_B (Some url_B) 0
      [Bev_event BEV_EVENT_CONNECTED
         [Cb_before_frame_send (request_frame 1) (Some 4096), Cb_send ''frames'']])) =
       Bufferevent_write ''frames''"
proof -
  have "run 4096 uri_B (Some url_B) 0
      [Bev_event BEV_EVENT_CONNECTED
         [Cb_before_frame_send (request_frame 1) (Some 4096), Cb_send ''frames'']]
    = upd (\<lambda>w. w\<lparr>status := Exited 0\<rparr>) connected_B"
    unfolding run_def connected_B_def started_B_def by (rule refl)
  also have "\<dots> = connected_B\<lparr>status := Exited 0\<rparr>"
    using active_connected_B by (simp add: active_def opened_def)
  finally show ?thesis
    by (simp add: connected_B_eq started_B_eq header_lines_def)
qed

section \<open>The captured stream identifier\<close>

text \<open>The stream data after a sequence of callbacks: only the request frame of the stream whose user data is the stream data changes it.\<close>

lemma invoke_stream_data:
  assumes "opened w" and "stream_data w = Some (a, sd)"
  shows "stream_data (invoke cb w) =
           Some (a, sd\<lparr>stream_id := (if sends_request a cb then sent_id cb else stream_id sd)\<rparr>)"
proof -
  from assms(1) have r: "status w = Running" by (simp add: opened_def)
  show ?thesis
  proof (cases cb)
    case (Cb_before_frame_send frame ud)
    with assms(2) r show ?thesis
      by (auto simp: before_frame_send_callback_def)
  next
    case (Cb_on_frame_recv frame)
    from cb_step_on_frame_recv [of w frame] assms(2) r
    have "map_option fst (stream_data (on_frame_recv_callback frame w)) = Some a"
      by (simp add: cb_step_def keeps_def)
    moreover have "stream_data (on_frame_recv_callback frame w) = stream_data w
        \<or> stream_data (on_frame_recv_callback frame w) =
            stream_data (print_headers (map (\<lambda>(name, v). (name, Inr v)) (headers_nva frame))
                            (emit (Stderr (lit (''Response headers:'' @ nl))) w))"
      using assms(2)
      by (cases "hd_type frame") (auto simp: on_frame_recv_callback_def)
    moreover have "stream_data (print_headers (map (\<lambda>(name, v). (name, Inr v)) (headers_nva frame))
                            (emit (Stderr (lit (''Response headers:'' @ nl))) w)) = stream_data w"
      using r by (simp add: print_headers_readable emit_Running)
    ultimately show ?thesis
      using Cb_on_frame_recv assms(2) by auto
  qed (use assms(2) in \<open>auto simp: send_callback_def on_data_chunk_recv_callback_def
         on_stream_close_callback_def split: option.splits\<close>)
qed

lemma fold_invoke_stream_data:
  assumes "opened w" and "stream_data w = Some (a, sd)"
  shows "stream_data (fold invoke cbs w) =
           Some (a, sd\<lparr>stream_id := last (stream_id sd # map sent_id (filter (sends_request a) cbs))\<rparr>)"
  using assms
proof (induction cbs arbitrary: w sd)
  case Nil
  then show ?case by simp
next
  case (Cons cb cbs)
  define sd' where "sd' = sd\<lparr>stream_id := (if sends_request a cb then sent_id cb else stream_id sd)\<rparr>"
  from Cons.prems have 1: "stream_data (invoke cb w) = Some (a, sd')"
    unfolding sd'_def by (rule invoke_stream_data)
  from Cons.prems(1) have 2: "opened (invoke cb w)" by (rule opened_invoke)
  from Cons.IH [OF 2 1] show ?case
    by (simp add: sd'_def)
qed

lemma assignments_count:
  assumes "opened w" and "stream_data w = Some (a, sd)"
  shows "assignments cbs w = length (filter (sends_request a) cbs)"
  using assms
proof (induction cbs arbitrary: w sd)
  case Nil
  show ?case by simp
next
  case (Cons cb cbs)
  from Cons.prems have 1: "stream_data (invoke cb w) =
      Some (a, sd\<lparr>stream_id := (if sends_request a cb then sent_id cb else stream_id sd)\<rparr>)"
    by (rule invoke_stream_data)
  from Cons.prems(1) have 2: "opened (invoke cb w)" by (rule opened_invoke)
  have "assigns_stream_id cb w = sends_request a cb"
    using Cons.prems(2) by (cases cb) simp_all
  with Cons.IH [OF 2 1] show ?case by simp
qed

lemma captured_prefix:
  assumes "opened w" and "stream_data w = Some (a, sd)" and "engine_exchange a s cbs"
  shows "captured_id (fold invoke (take n cbs) w) =
           Some (if list_ex (sends_request a) (take n cbs) then s else stream_id sd)"
proof -
  let ?f = "filter (sends_request a) (take n cbs)"
  have sub: "set ?f \<subseteq> set (filter (sends_request a) cbs)"
    by (auto dest: in_set_takeD)
  from assms(3) have all: "\<forall>cb \<in> set (filter (sends_request a) cbs). sent_id cb = s"
    by (simp add: engine_exchange_def list_all_iff)
  have "last (stream_id sd # map sent_id ?f) =
      (if list_ex (sends_request a) (take n cbs) then s else stream_id sd)"
  proof (cases "?f = []")
    case True
    then show ?thesis by (auto simp: list_ex_iff filter_empty_conv)
  next
    case False
    then have "last ?f \<in> set ?f" by (rule last_in_set)
    with sub all have "sent_id (last ?f) = s" by blast
    moreover from False have "list_ex (sends_request a) (take n cbs)"
      by (auto simp: list_ex_iff filter_empty_conv)
    ultimately show ?thesis using False by (simp add: last_map)
  qed
  with fold_invoke_stream_data [OF assms(1,2), of "take n cbs"] show ?thesis
    by (simp add: captured_id_def)
qed

text \<open>
  Claim C9. Over the callbacks of a connection that obey \<open>engine_exchange\<close>, from an
  open context whose stream data is at address \<open>a\<close>: the assignment to \<open>stream_id\<close>
  is executed at most once; after every prefix of the callbacks the captured identifier is
  its initial value if the request frame has not been reported yet and the assigned
  identifier \<open>s\<close> afterwards; and at every response-header or data-chunk event of the
  exchange the captured identifier is the one the event carries.
\<close>

theorem stream_id_written_once:
  assumes "opened w" and "stream_data w = Some (a, sd)" and "engine_exchange a s cbs"
  shows "assignments cbs w \<le> 1
       \<and> (\<forall>n \<le> length cbs. captured_id (fold invoke (take n cbs) w) =
             Some (if list_ex (sends_request a) (take n cbs) then s else stream_id sd))
       \<and> (\<forall>n < length cbs. reports_response s (cbs ! n) \<longrightarrow>
             captured_id (fold invoke (take n cbs) w) = Some s)"
proof -
  from assms have 1: "assignments cbs w \<le> 1"
    by (simp add: assignments_count engine_exchange_def)
  have 3: "captured_id (fold invoke (take n cbs) w) = Some s"
    if "n < length cbs" "reports_response s (cbs ! n)" for n
  proof -
    from assms(3) that have "list_ex (sends_request a) (take n cbs)"
      by (simp add: engine_exchange_def list_all_iff)
    with captured_prefix [OF assms, of n] show ?thesis by simp
  qed
  from 1 3 captured_prefix [OF assms] show ?thesis by blast
qed

lemma captured_fold_invoke_cong:
  assumes "opened w" and "opened w'" and "stream_data w' = stream_data w"
  shows "captured_id (fold invoke cbs w') = captured_id (fold invoke cbs w)"
proof -
  from assms(1) obtain a sd where sd: "stream_data w = Some (a, sd)"
    by (cases "stream_data w") (auto simp: opened_def)
  with assms(3) have sd': "stream_data w' = Some (a, sd)" by simp
  from fold_invoke_stream_data [OF assms(1) sd, of cbs]
    fold_invoke_stream_data [OF assms(2) sd', of cbs]
  show ?thesis by (simp add: captured_id_def)
qed

text \<open>
  The read handler changes the identifier only through the callbacks the engine invokes
  during ingestion and during the final send.
\<close>

lemma readcb_captured_id:
  assumes "active w" and "0 \<le> sint rv"
  shows "captured_id (readcb data rv cbs_recv cbs_send w) =
           captured_id (fold invoke (cbs_recv @ cbs_send) w)"
proof -
  define w1 where "w1 = emit (Nghttp2_session_mem_recv data) w"
  define w2 where "w2 = fold invoke cbs_recv w1"
  define w2' where "w2' = fold invoke cbs_recv w"
  define w3 where "w3 = w2\<lparr>trace := trace w2 @ [Evbuffer_drain (nat (sint rv)), Nghttp2_session_send]\<rparr>"
  from assms(1) have o: "opened w" and o1: "opened w1"
    by (simp_all add: active_def w1_def)
  then have o2: "opened w2" and o2': "opened w2'"
    unfolding w2_def w2'_def by (simp_all add: opened_fold_invoke)
  then have o3: "opened w3" by (simp add: w3_def opened_def)
  from o obtain a sd where sd: "stream_data w = Some (a, sd)"
    by (cases "stream_data w") (auto simp: opened_def)
  then have sd1: "stream_data w1 = Some (a, sd)" by (simp add: w1_def)
  have "stream_data w2 = stream_data w2'"
    unfolding w2_def w2'_def
    by (simp add: fold_invoke_stream_data [OF o1 sd1] fold_invoke_stream_data [OF o sd])
  then have s3: "stream_data w3 = stream_data w2'" by (simp add: w3_def)
  have "readcb data rv cbs_recv cbs_send w = fold invoke cbs_send w3"
    unfolding w3_def w2_def w1_def by (rule readcb_consumed [OF assms])
  then show ?thesis
    using captured_fold_invoke_cong [OF o2' o3 s3, of cbs_send] by (simp add: w2'_def)
qed

section \<open>The claims on scenario B\<close>


text \<open>Claim C4 on scenario B: a drained and an undrained write completion.\<close>

theorem writecb_teardown_iff_witness:
  "trace (deliver (Bev_write 0 0 0) connected_B) = trace connected_B @ teardown_calls
   \<and> bev (deliver (Bev_write 0 0 0) connected_B) = None
   \<and> trace (deliver (Bev_write 0 1 0) connected_B) = trace connected_B
   \<and> bev (deliver (Bev_write 0 1 0) connected_B) = bev connected_B"
  using writecb_teardown_iff [OF active_connected_B, of 0 0 0]
    writecb_teardown_iff [OF active_connected_B, of 0 1 0]
  by simp

text \<open>Claim C6 on scenario B: three bytes consumed, and the fatal error \<open>-901\<close>.\<close>

theorem readcb_ingest_then_flush_witness:
  "readcb ''abc'' 3 [] [] connected_B =
      connected_B\<lparr>trace := trace connected_B
         @ [Nghttp2_session_mem_recv ''abc'', Evbuffer_drain 3, Nghttp2_session_send]\<rparr>
   \<and> filter is_drain_or_flush (trace (readcb ''abc'' 3 [] [] connected_B)) =
      filter is_drain_or_flush (trace connected_B)
      @ [Evbuffer_drain 3, Nghttp2_session_send]
   \<and> active (readcb ''abc'' 3 [] [] connected_B)
   \<and> readcb ''abc'' (- 901) [] [] connected_B =
      connected_B\<lparr>session := None, dnsbase := None, bev := None, stream_data := None,
        trace := trace connected_B @ Nghttp2_session_mem_recv ''abc''
          # Warnx [Lit ''Fatal error: '', Strerror (- 901)] # teardown_calls @ [Nghttp2_session_send],
        status := Crashed Null_pointer\<rparr>
   \<and> filter is_drain_or_flush (trace (readcb ''abc'' (- 901) [] [] connected_B)) =
      filter is_drain_or_flush (trace connected_B) @ [Nghttp2_session_send]"
proof -
  have r: "status connected_B = Running"
    using active_connected_B by (simp add: active_def opened_def)
  from readcb_ingest_then_flush [OF active_connected_B, of 3 "''abc''" "[]" "[]"]
    readcb_ingest_then_flush [OF active_connected_B, of "- 901" "''abc''" "[]" "[]"] r
    active_connected_B
  show ?thesis by (simp add: emit_Running teardown_calls_def releases_def)
qed

text \<open>
  Claim C10 on scenario B: events on stream 3 after stream 1 was captured, and events on
  stream 1 before the request has been sent.
\<close>

theorem unmatched_events_write_nothing_witness:
  "trace (on_data_chunk_recv_callback 3 ''body'' connected_B) = trace connected_B
   \<and> trace (on_frame_recv_callback (response_frame 3) connected_B) = trace connected_B
   \<and> captured_id started_B = Some (- 1)
   \<and> trace (on_data_chunk_recv_callback 1 ''body'' started_B) = trace started_B
   \<and> trace (on_frame_recv_callback (response_frame 1) started_B) = trace started_B"
proof -
  have c: "captured_id started_B = Some (- 1)"
    by (simp add: started_B_eq captured_id_def)
  have ne: "(1 :: 32 word) \<noteq> 3" by simp
  from unmatched_events_write_nothing [of connected_B 3 "''body''" "response_frame 3" uri_B url_B]
    unmatched_events_write_nothing [of started_B 1 "''body''" "response_frame 1" uri_B url_B]
    captured_connected_B c ne
  show ?thesis
    by (simp add: response_frame_def)
qed


text \<open>
  Claim C3 on scenario B: a fatal ingestion error after the request was sent, followed by
  further events; an EOF before the connection was established, followed by a write
  completion; and the release function executed once more on the context the EOF closed.
\<close>

theorem teardown_once_in_order_witness:
  "(filter is_teardown_call (trace (run 4096 uri_B (Some url_B) 0 [Bev_event BEV_EVENT_EOF []])) = []
      \<or> filter is_teardown_call (trace (run 4096 uri_B (Some url_B) 0 [Bev_event BEV_EVENT_EOF []])) = teardown_calls)
   \<and> torn_down (deliver (Bev_read ''frames'' (- 901) [] []) connected_B)
   \<and> status (deliver (Bev_read ''frames'' (- 901) [] []) connected_B) = Crashed Null_pointer
   \<and> event_base_loop
        [Bev_read ''frames'' (- 901) [] [], Bev_write 0 0 0, Bev_event BEV_EVENT_EOF []] connected_B
      = deliver (Bev_read ''frames'' (- 901) [] []) connected_B
   \<and> torn_down (deliver (Bev_event BEV_EVENT_EOF []) started_B)
   \<and> status (deliver (Bev_event BEV_EVENT_EOF []) started_B) = Running
   \<and> event_base_loop [Bev_event BEV_EVENT_EOF [], Bev_write 0 0 0] started_B
      = deliver (Bev_event BEV_EVENT_EOF []) started_B
   \<and> delete_http2_session_data (deliver (Bev_event BEV_EVENT_EOF []) started_B) =
       (deliver (Bev_event BEV_EVENT_EOF []) started_B)
         \<lparr>trace := trace (deliver (Bev_event BEV_EVENT_EOF []) started_B)
             @ [Bufferevent_openssl_get_ssl],
          status := Crashed Null_pointer\<rparr>"
proof -
  have t: "terminal (Bev_read ''frames'' (- 901) [] [])" by simp
  have e: "BEV_EVENT_EOF AND BEV_EVENT_CONNECTED = 0"
    by (simp add: BEV_EVENT_EOF_def BEV_EVENT_CONNECTED_def)
  note A = teardown_once_in_order [where a = 4096 and str = uri_B and parsed = "Some url_B"
      and connect_rv = 0 and evs = "[Bev_write 0 0 0, Bev_event BEV_EVENT_EOF []]"
      and w = connected_B and e = "Bev_read ''frames'' (- 901) [] []"
      and events = BEV_EVENT_EOF and cbs = "[]"]
  note B = teardown_once_in_order [where a = 4096 and str = uri_B and parsed = "Some url_B"
      and connect_rv = 0 and evs = "[Bev_event BEV_EVENT_EOF []]"
      and w = started_B and e = "Bev_read ''frames'' (- 901) [] []"
      and events = BEV_EVENT_EOF and cbs = "[]"]
  note C = teardown_once_in_order [where a = 4096 and str = uri_B and parsed = "Some url_B"
      and connect_rv = 0 and evs = "[Bev_write 0 0 0]"
      and w = started_B and e = "Bev_read ''frames'' (- 901) [] []"
      and events = BEV_EVENT_EOF and cbs = "[]"]
  note D = teardown_once_in_order [where a = 4096 and str = uri_B and parsed = "Some url_B"
      and connect_rv = 0 and evs = "[]"
      and w = "deliver (Bev_event BEV_EVENT_EOF []) started_B"
      and e = "Bev_read ''frames'' (- 901) [] []"
      and events = BEV_EVENT_EOF and cbs = "[]"]
  from B have 1: "filter is_teardown_call (trace (run 4096 uri_B (Some url_B) 0 [Bev_event BEV_EVENT_EOF []])) = []
      \<or> filter is_teardown_call (trace (run 4096 uri_B (Some url_B) 0 [Bev_event BEV_EVENT_EOF []])) = teardown_calls"
    by (rule conjunct1)
  from A [THEN conjunct2, THEN conjunct1] active_connected_B untouched_connected_B t
  have 2: "torn_down (deliver (Bev_read ''frames'' (- 901) [] []) connected_B)
   \<and> status (deliver (Bev_read ''frames'' (- 901) [] []) connected_B) = Crashed Null_pointer
   \<and> event_base_loop
        [Bev_read ''frames'' (- 901) [] [], Bev_write 0 0 0, Bev_event BEV_EVENT_EOF []] connected_B
      = deliver (Bev_read ''frames'' (- 901) [] []) connected_B"
    by simp
  from C [THEN conjunct2, THEN conjunct2, THEN conjunct1] opened_started_B untouched_started_B e
  have 3: "torn_down (deliver (Bev_event BEV_EVENT_EOF []) started_B)
   \<and> status (deliver (Bev_event BEV_EVENT_EOF []) started_B) = Running
   \<and> event_base_loop [Bev_event BEV_EVENT_EOF [], Bev_write 0 0 0] started_B
      = deliver (Bev_event BEV_EVENT_EOF []) started_B"
    by simp
  from 3 have "status (deliver (Bev_event BEV_EVENT_EOF []) started_B) = Running"
    and "bev (deliver (Bev_event BEV_EVENT_EOF []) started_B) = None"
    by (simp_all add: torn_down_def)
  with D [THEN conjunct2, THEN conjunct2, THEN conjunct2]
  have 4: "delete_http2_session_data (deliver (Bev_event BEV_EVENT_EOF []) started_B) =
       (deliver (Bev_event BEV_EVENT_EOF []) started_B)
         \<lparr>trace := trace (deliver (Bev_event BEV_EVENT_EOF []) started_B)
             @ [Bufferevent_openssl_get_ssl],
          status := Crashed Null_pointer\<rparr>"
    by simp
  from 1 2 3 4 show ?thesis by simp
qed

text \<open>Claim C9 on the exchange of scenario B.\<close>

theorem stream_id_written_once_witness:
  "assignments exchange_B started_B \<le> 1
   \<and> captured_id (fold invoke (take 0 exchange_B) started_B) = Some (- 1)
   \<and> captured_id (fold invoke (take 2 exchange_B) started_B) = Some 1
   \<and> captured_id (fold invoke (take 3 exchange_B) started_B) = Some 1"
proof -
  have sdB: "stream_data started_B = Some (4096, \<lparr>uri = uri_B, u = url_B,
          authority = Some (map Some ''example.com:8443'' @ [Some (CHR 0x00), None]),
          path = Some (map Some ''/a/b'' @ None # map Some ''x=1''),
          authoritylen = Some 16, pathlen = Some 8, stream_id = - 1\<rparr>)"
    by (simp add: started_B_eq)
  note th = stream_id_written_once [OF opened_started_B sdB engine_exchange_B]
  have l: "length exchange_B = 4" by (simp add: exchange_B_def)
  have r2: "reports_response 1 (exchange_B ! 2)" and r3: "reports_response 1 (exchange_B ! 3)"
    by (simp_all add: exchange_B_def response_frame_def)
  have e0: "\<not> list_ex (sends_request 4096) (take 0 exchange_B)" by simp
  from th have a: "assignments exchange_B started_B \<le> 1" by (rule conjunct1)
  note cap = th [THEN conjunct2, THEN conjunct1, rule_format]
  note resp = th [THEN conjunct2, THEN conjunct2, rule_format]
  from cap [of 0] have b: "captured_id (fold invoke (take 0 exchange_B) started_B) = Some (- 1)"
    by simp
  from resp [of 2] l r2 have c: "captured_id (fold invoke (take 2 exchange_B) started_B) = Some 1"
    by simp
  from resp [of 3] l r3 have d: "captured_id (fold invoke (take 3 exchange_B) started_B) = Some 1"
    by simp
  from a b c d show ?thesis by simp
qed

end
